theory Spec2Isabelle
  imports Main
begin

section \<open>Python strings\<close>

text \<open>
  The figure scraper (\<^verbatim>\<open>src/src/figure_scraper.py\<close>) works on Python \<^verbatim>\<open>str\<close> values.
  They are modelled as \<^typ>\<open>string\<close>: a list of 8-bit characters, so \<^verbatim>\<open>len\<close> counts
  bytes and the case and whitespace tables below are the ASCII part of Python's.
\<close>

definition whitespace :: "char list" where
  \<comment> \<open>the ASCII characters \<^verbatim>\<open>str.isspace\<close> accepts: what \<^verbatim>\<open>strip()\<close> removes and \<^verbatim>\<open>\s\<close> matches\<close>
  "whitespace = [CHR 0x09, CHR 0x0A, CHR 0x0B, CHR 0x0C, CHR 0x0D,
                 CHR 0x1C, CHR 0x1D, CHR 0x1E, CHR 0x1F, CHR 0x20]"

definition is_space :: "char \<Rightarrow> bool" where
  "is_space c = (c \<in> set whitespace)"

definition lower_char :: "char \<Rightarrow> char" where
  "lower_char c =
     (case map_of (zip ''ABCDEFGHIJKLMNOPQRSTUVWXYZ'' ''abcdefghijklmnopqrstuvwxyz'') c of
        Some d \<Rightarrow> d
      | None \<Rightarrow> c)"

definition lower :: "string \<Rightarrow> string" where
  \<comment> \<open>\<^verbatim>\<open>s.lower()\<close>\<close>
  "lower s = map lower_char s"

fun startswith :: "string \<Rightarrow> string \<Rightarrow> bool" where
  \<comment> \<open>\<^verbatim>\<open>s.startswith(p)\<close>\<close>
  "startswith s [] = True"
| "startswith [] (p # ps) = False"
| "startswith (c # cs) (p # ps) = (c = p \<and> startswith cs ps)"

fun str_in :: "string \<Rightarrow> string \<Rightarrow> bool" where
  \<comment> \<open>\<^verbatim>\<open>p in s\<close>: \<open>p\<close> occurs in \<open>s\<close> as a contiguous substring\<close>
  "str_in p [] = (p = [])"
| "str_in p (c # cs) = (startswith (c # cs) p \<or> str_in p cs)"

definition strip :: "string \<Rightarrow> string" where
  \<comment> \<open>\<^verbatim>\<open>s.strip()\<close>\<close>
  "strip s = rev (dropWhile is_space (rev (dropWhile is_space s)))"

function collapse_ws :: "string \<Rightarrow> string" where
  \<comment> \<open>\<^verbatim>\<open>re.sub(r'\s+', ' ', s)\<close>: every maximal run of whitespace becomes one space\<close>
  "collapse_ws [] = []"
| "collapse_ws (c # cs) =
     (if is_space c then CHR '' '' # collapse_ws (dropWhile is_space cs)
      else c # collapse_ws cs)"
  by pat_completeness auto
termination
  by (relation "measure length") (auto simp: length_dropWhile_le less_Suc_eq_le)

fun split_ws :: "string \<Rightarrow> string \<Rightarrow> string list" where
  \<comment> \<open>\<^verbatim>\<open>s.split()\<close>, the word read so far (reversed) as first argument\<close>
  "split_ws w [] = (if w = [] then [] else [rev w])"
| "split_ws w (c # cs) =
     (if is_space c then (if w = [] then [] else [rev w]) @ split_ws [] cs
      else split_ws (c # w) cs)"

definition digit_char :: "nat \<Rightarrow> char" where
  "digit_char d = ''0123456789'' ! d"

function str_nat :: "nat \<Rightarrow> string" where
  \<comment> \<open>\<^verbatim>\<open>str(i)\<close> (as in an f-string) for a non-negative integer: its decimal digits\<close>
  "str_nat n = (if n < 10 then [digit_char n] else str_nat (n div 10) @ [digit_char (n mod 10)])"
  by pat_completeness auto
termination
  by (relation "measure id") auto

declare str_nat.simps [simp del]

fun py_or :: "string option \<Rightarrow> string option \<Rightarrow> string option" where
  \<comment> \<open>\<^verbatim>\<open>a or b\<close> on optional strings: \<^verbatim>\<open>None\<close> and \<^verbatim>\<open>""\<close> are falsy\<close>
  "py_or (Some s) b = (if s \<noteq> [] then Some s else b)"
| "py_or None b = b"

fun py_or_str :: "string option \<Rightarrow> string \<Rightarrow> string" where
  \<comment> \<open>\<^verbatim>\<open>a or d\<close> with a string default \<open>d\<close>\<close>
  "py_or_str (Some s) d = (if s \<noteq> [] then s else d)"
| "py_or_str None d = d"

section \<open>Parsed documents\<close>

text \<open>
  The scraper reads pages through BeautifulSoup (\<^verbatim>\<open>html.parser\<close>). The library is not part
  of the repository; what follows models the operations the scraper calls: a parsed page
  is a forest of text and element nodes, a \<^verbatim>\<open>Tag\<close> handle is an element together with
  its ancestors and its next sibling element, and \<^verbatim>\<open>select\<close> answers in document
  order. Tag names are lower case as the parser leaves them; an element's attributes are
  an association list with one entry per name.
\<close>

type_synonym attrs = "(string \<times> string) list"

datatype node = Text string | Element string attrs "node list"

record tag_ref =
  tag_node :: node
  tag_parents :: "(string \<times> attrs) list"
  tag_next :: "node option"

fun get_attr :: "node \<Rightarrow> string \<Rightarrow> string option" where
  \<comment> \<open>\<^verbatim>\<open>tag.get(name)\<close>\<close>
  "get_attr (Element t as ns) k = map_of as k"
| "get_attr (Text s) k = None"

fun get_text :: "node \<Rightarrow> string" where
  \<comment> \<open>\<^verbatim>\<open>tag.get_text()\<close>: the text nodes below the tag, concatenated\<close>
  "get_text (Text s) = s"
| "get_text (Element t as ns) = concat (map get_text ns)"

fun first_element :: "node list \<Rightarrow> node option" where
  "first_element [] = None"
| "first_element (Text s # ns) = first_element ns"
| "first_element (Element t as cs # ns) = Some (Element t as cs)"

fun walk :: "(string \<times> attrs) list \<Rightarrow> node list \<Rightarrow> tag_ref list" where
  \<comment> \<open>the elements of a forest in document order, each with its context\<close>
  "walk ps [] = []"
| "walk ps (Text s # ns) = walk ps ns"
| "walk ps (Element t as cs # ns) =
     \<lparr>tag_node = Element t as cs, tag_parents = ps, tag_next = first_element ns\<rparr>
       # (walk ((t, as) # ps) cs @ walk ps ns)"

fun descendants :: "tag_ref \<Rightarrow> tag_ref list" where
  "descendants r =
     (case tag_node r of
        Element t as cs \<Rightarrow> walk ((t, as) # tag_parents r) cs
      | Text s \<Rightarrow> [])"

text \<open>
  The CSS selectors the scraper uses are built from a tag name, a class, and the attribute
  tests \<^verbatim>\<open>[a^="v"]\<close> and \<^verbatim>\<open>[a*="v"]\<close>, joined by the descendant combinator.
\<close>

datatype simple_sel =
    SelTag string
  | SelClass string
  | SelAttrPrefix string string
  | SelAttrContains string string

type_synonym compound = "simple_sel list"
type_synonym selector = "compound list"

fun matches_simple :: "string \<times> attrs \<Rightarrow> simple_sel \<Rightarrow> bool" where
  "matches_simple (t, as) (SelTag n) = (t = n)"
| "matches_simple (t, as) (SelClass c) =
     (case map_of as ''class'' of None \<Rightarrow> False | Some v \<Rightarrow> c \<in> set (split_ws [] v))"
| "matches_simple (t, as) (SelAttrPrefix a v) =
     (case map_of as a of None \<Rightarrow> False | Some x \<Rightarrow> v \<noteq> [] \<and> startswith x v)"
| "matches_simple (t, as) (SelAttrContains a v) =
     (case map_of as a of None \<Rightarrow> False | Some x \<Rightarrow> v \<noteq> [] \<and> str_in v x)"

definition matches_compound :: "string \<times> attrs \<Rightarrow> compound \<Rightarrow> bool" where
  "matches_compound e c = list_all (matches_simple e) c"

fun matches_ancestors :: "(string \<times> attrs) list \<Rightarrow> compound list \<Rightarrow> bool" where
  \<comment> \<open>the remaining compounds, nearest first, each matched by a farther ancestor\<close>
  "matches_ancestors ps [] = True"
| "matches_ancestors [] (c # cs) = False"
| "matches_ancestors (p # ps) (c # cs) =
     ((matches_compound p c \<and> matches_ancestors ps cs) \<or> matches_ancestors ps (c # cs))"

definition matches :: "selector \<Rightarrow> tag_ref \<Rightarrow> bool" where
  "matches sel r =
     (case (rev sel, tag_node r) of
        (c # cs, Element t as ns) \<Rightarrow>
          matches_compound (t, as) c \<and> matches_ancestors (tag_parents r) cs
      | _ \<Rightarrow> False)"

definition soup_select :: "selector \<Rightarrow> node list \<Rightarrow> tag_ref list" where
  \<comment> \<open>\<^verbatim>\<open>soup.select(selector)\<close>\<close>
  "soup_select sel soup = filter (matches sel) (walk [] soup)"

definition select_one :: "selector \<Rightarrow> tag_ref \<Rightarrow> tag_ref option" where
  \<comment> \<open>\<^verbatim>\<open>tag.select_one(selector)\<close>: the first matching descendant\<close>
  "select_one sel r = List.find (matches sel) (descendants r)"

definition find_tag :: "string \<Rightarrow> tag_ref \<Rightarrow> tag_ref option" where
  \<comment> \<open>\<^verbatim>\<open>tag.find(name)\<close>: the first descendant with that tag name\<close>
  "find_tag name r = select_one [[SelTag name]] r"

definition find_next_sibling :: "tag_ref \<Rightarrow> node option" where
  \<comment> \<open>\<^verbatim>\<open>tag.find_next_sibling()\<close>: the next sibling that is an element\<close>
  "find_next_sibling r = tag_next r"

section \<open>The network\<close>

text \<open>
  \<^verbatim>\<open>session.get(url, timeout=...)\<close> either raises (a timeout, a connection error) or
  returns a response with a status code and a body; the body is taken as already parsed.
  Every function that may fetch returns, next to its value, the URLs it requested, in
  order. Console output and the pause before the secondary fetch change no value and are
  left out.
\<close>

datatype exn = Exn string

datatype response = Response nat "node list"

type_synonym world = "string \<Rightarrow> exn + response"

section \<open>URL classification and normalization\<close>

definition cdn_patterns :: "string list" where
  "cdn_patterns = [''cdn.ncbi.nlm.nih.gov/pmc/blobs/'', ''ncbi.nlm.nih.gov/pmc/blobs/'']"

definition image_extensions :: "string list" where
  "image_extensions = [''.jpg'', ''.jpeg'', ''.png'', ''.gif'', ''.webp'']"

definition is_cdn_url :: "string \<Rightarrow> bool" where
  \<comment> \<open>\<^verbatim>\<open>_is_cdn_url\<close>\<close>
  "is_cdn_url url =
     (if url = [] then False
      else
        (let has_cdn_pattern = list_ex (\<lambda>pattern. str_in pattern url) cdn_patterns;
             has_image_extension = list_ex (\<lambda>ext. str_in ext (lower url)) image_extensions
         in has_cdn_pattern \<and> has_image_extension))"

definition is_ncbi_image_url :: "string \<Rightarrow> bool" where
  \<comment> \<open>the \<^verbatim>\<open>elif\<close> test of the scan in \<^verbatim>\<open>_scrape_cdn_url_from_figure_page\<close>\<close>
  "is_ncbi_image_url url =
     (str_in ''ncbi.nlm.nih.gov'' url
      \<and> list_ex (\<lambda>ext. str_in ext (lower url)) [''.jpg'', ''.jpeg'', ''.png''])"

datatype candidate_class = DirectAsset | GenericRepositoryImage | Unusable

definition classify :: "string \<Rightarrow> candidate_class" where
  \<comment> \<open>the \<^verbatim>\<open>if\<close>/\<^verbatim>\<open>elif\<close> chain the scan applies to a candidate URL\<close>
  "classify url =
     (if is_cdn_url url then DirectAsset
      else if is_ncbi_image_url url then GenericRepositoryImage
      else Unusable)"

definition site_origin :: string where
  "site_origin = ''https://www.ncbi.nlm.nih.gov''"

definition normalize_url :: "string \<Rightarrow> string" where
  \<comment> \<open>\<^verbatim>\<open>_normalize_url\<close>\<close>
  "normalize_url url0 =
     (if url0 = [] then []
      else
        (let url = strip url0 in
         if startswith url ''//'' then ''https:'' @ url
         else if startswith url ''/'' then site_origin @ url
         else if startswith url ''http'' then url
         else site_origin @ ''/'' @ url))"

definition figure_page_url :: "string \<Rightarrow> string \<Rightarrow> string" where
  "figure_page_url pmcid fig_id =
     ''https://www.ncbi.nlm.nih.gov/pmc/articles/'' @ pmcid @ ''/figure/'' @ fig_id @ ''/''"

section \<open>The image URL resolver\<close>

definition cdn_selectors :: "selector list" where
  "cdn_selectors =
     [[[SelTag ''img'', SelAttrContains ''src'' ''cdn.ncbi.nlm.nih.gov/pmc/blobs/'']],
      [[SelTag ''img'', SelAttrContains ''src'' ''/pmc/blobs/'']],
      [[SelTag ''img'', SelClass ''figure-image'']],
      [[SelClass ''figure-viewer''], [SelTag ''img'']],
      [[SelClass ''fig-panel''], [SelTag ''img'']],
      [[SelClass ''figure-content''], [SelTag ''img'']],
      [[SelClass ''fig-main''], [SelTag ''img'']],
      [[SelTag ''img'', SelAttrContains ''src'' ''blobs'']],
      [[SelTag ''img'', SelAttrContains ''src'' ''cdn.ncbi.nlm.nih.gov'']],
      [[SelClass ''fig''], [SelTag ''img'', SelAttrContains ''src'' ''.jpg'']],
      [[SelClass ''fig''], [SelTag ''img'', SelAttrContains ''src'' ''.png'']],
      [[SelTag ''img'', SelAttrContains ''alt'' ''Figure'']],
      [[SelTag ''img'', SelAttrContains ''alt'' ''Fig'']]]"

fun scan_img_tags :: "tag_ref list \<Rightarrow> string option" where
  \<comment> \<open>the inner loop of the scan; \<open>Some u\<close> is \<^verbatim>\<open>return u\<close>, \<open>None\<close> is falling out of the loop\<close>
  "scan_img_tags [] = None"
| "scan_img_tags (img_tag # img_tags) =
     (case get_attr (tag_node img_tag) ''src'' of
        None \<Rightarrow> scan_img_tags img_tags
      | Some src \<Rightarrow>
          if src = [] then scan_img_tags img_tags
          else
            (let normalized_url = normalize_url src in
             if is_cdn_url normalized_url then Some normalized_url
             else if is_ncbi_image_url normalized_url then Some normalized_url
             else scan_img_tags img_tags))"

fun scan_selectors :: "node list \<Rightarrow> selector list \<Rightarrow> string option" where
  \<comment> \<open>the outer loop of the scan\<close>
  "scan_selectors soup [] = None"
| "scan_selectors soup (sel # sels) =
     (case scan_img_tags (soup_select sel soup) of
        Some url \<Rightarrow> Some url
      | None \<Rightarrow> scan_selectors soup sels)"

definition scrape_cdn_url_from_figure_page :: "world \<Rightarrow> string \<Rightarrow> string \<Rightarrow> string \<times> string list" where
  \<comment> \<open>\<^verbatim>\<open>_scrape_cdn_url_from_figure_page\<close>: any exception and any status but 200 give \<^verbatim>\<open>""\<close>\<close>
  "scrape_cdn_url_from_figure_page w pmcid fig_id =
     (let page = figure_page_url pmcid fig_id in
      (case w page of
         Inl e \<Rightarrow> []
       | Inr (Response status_code content) \<Rightarrow>
           if status_code \<noteq> 200 then []
           else (case scan_selectors content cdn_selectors of Some url \<Rightarrow> url | None \<Rightarrow> []),
       [page]))"

definition inline_image_url :: "tag_ref \<Rightarrow> string option" where
  \<comment> \<open>the first part of \<^verbatim>\<open>_get_cdn_image_url\<close>: \<open>Some u\<close> is its \<^verbatim>\<open>return u\<close>\<close>
  "inline_image_url fig_elem =
     (case find_tag ''img'' fig_elem of
        None \<Rightarrow> None
      | Some img_elem \<Rightarrow>
          (case py_or (get_attr (tag_node img_elem) ''src'') (get_attr (tag_node img_elem) ''data-src'') of
             None \<Rightarrow> None
           | Some src \<Rightarrow>
               if src \<noteq> [] \<and> is_cdn_url src then Some (normalize_url src) else None))"

definition get_cdn_image_url :: "world \<Rightarrow> tag_ref \<Rightarrow> string \<Rightarrow> string \<Rightarrow> string \<times> string list" where
  \<comment> \<open>\<^verbatim>\<open>_get_cdn_image_url\<close>\<close>
  "get_cdn_image_url w fig_elem pmcid fig_id =
     (case inline_image_url fig_elem of
        Some url \<Rightarrow> (url, [])
      | None \<Rightarrow> scrape_cdn_url_from_figure_page w pmcid fig_id)"

section \<open>Label and caption\<close>

definition label_selectors :: "selector list" where
  "label_selectors =
     [[[SelClass ''fig-label'']], [[SelClass ''figure-title'']], [[SelClass ''fig-title'']],
      [[SelTag ''strong'']], [[SelClass ''caption-title'']], [[SelTag ''h3'']], [[SelTag ''h4'']]]"

fun first_label :: "tag_ref \<Rightarrow> selector list \<Rightarrow> string option" where
  "first_label fig_elem [] = None"
| "first_label fig_elem (sel # sels) =
     (case select_one sel fig_elem of
        None \<Rightarrow> first_label fig_elem sels
      | Some label_elem \<Rightarrow>
          (let text = strip (get_text (tag_node label_elem)) in
           if text \<noteq> [] \<and> length text < 200 then Some text
           else first_label fig_elem sels))"

definition extract_figure_label :: "tag_ref \<Rightarrow> nat \<Rightarrow> string" where
  \<comment> \<open>\<^verbatim>\<open>_extract_figure_label\<close>\<close>
  "extract_figure_label fig_elem fig_number =
     (case first_label fig_elem label_selectors of
        Some text \<Rightarrow> text
      | None \<Rightarrow> ''Figure '' @ str_nat fig_number)"

definition caption_selectors :: "selector list" where
  "caption_selectors =
     [[[SelClass ''fig-caption'']], [[SelTag ''figcaption'']], [[SelClass ''caption'']],
      [[SelClass ''figure-caption'']], [[SelClass ''caption-text'']]]"

fun first_caption :: "tag_ref \<Rightarrow> selector list \<Rightarrow> string option" where
  \<comment> \<open>the selector loop of \<^verbatim>\<open>_extract_figure_caption\<close>\<close>
  "first_caption fig_elem [] = None"
| "first_caption fig_elem (sel # sels) =
     (case select_one sel fig_elem of
        None \<Rightarrow> first_caption fig_elem sels
      | Some caption_elem \<Rightarrow>
          (let text = strip (get_text (tag_node caption_elem)) in
           if length text > 10 then Some (collapse_ws text)
           else first_caption fig_elem sels))"

definition sibling_caption :: "tag_ref \<Rightarrow> string" where
  \<comment> \<open>the sibling fallback of \<^verbatim>\<open>_extract_figure_caption\<close>\<close>
  "sibling_caption fig_elem =
     (case find_next_sibling fig_elem of
        None \<Rightarrow> []
      | Some next_sibling \<Rightarrow>
          (let sibling_text = strip (get_text next_sibling) in
           if sibling_text \<noteq> [] \<and> length sibling_text > 20 then collapse_ws sibling_text
           else []))"

definition extract_figure_caption :: "tag_ref \<Rightarrow> string" where
  \<comment> \<open>\<^verbatim>\<open>_extract_figure_caption\<close>\<close>
  "extract_figure_caption fig_elem =
     (case first_caption fig_elem caption_selectors of
        Some text \<Rightarrow> text
      | None \<Rightarrow> sibling_caption fig_elem)"

section \<open>Figure records\<close>

record figure_record =
  figure_id :: string
  label :: string
  caption :: string
  image_url :: string
  figure_url :: string

definition extract_figure_info :: "world \<Rightarrow> tag_ref \<Rightarrow> string \<Rightarrow> nat \<Rightarrow> figure_record option \<times> string list" where
  \<comment> \<open>\<^verbatim>\<open>_extract_figure_info\<close>; \<open>None\<close> is its \<^verbatim>\<open>return None\<close>\<close>
  "extract_figure_info w fig_elem pmcid fig_number =
     (let fig_id = py_or_str (get_attr (tag_node fig_elem) ''id'') (''figure_'' @ str_nat fig_number);
          label = extract_figure_label fig_elem fig_number;
          caption = extract_figure_caption fig_elem;
          (cdn_image_url, requests) = get_cdn_image_url w fig_elem pmcid fig_id;
          pmc_figure_page_url = figure_page_url pmcid fig_id
      in
        (if caption \<noteq> [] \<or> cdn_image_url \<noteq> [] then
           Some \<lparr>figure_id = fig_id,
                 label = label,
                 caption = caption,
                 image_url = (if cdn_image_url \<noteq> [] then cdn_image_url else pmc_figure_page_url),
                 figure_url = (if cdn_image_url \<noteq> [] then cdn_image_url else pmc_figure_page_url)\<rparr>
         else None,
         requests))"

section \<open>The figure locator\<close>

definition figure_selectors :: "selector list" where
  "figure_selectors =
     [[[SelTag ''div'', SelClass ''fig'']],
      [[SelTag ''figure'']],
      [[SelClass ''fig-panel'']],
      [[SelClass ''boxed-text''], [SelTag ''figure'']],
      [[SelAttrPrefix ''id'' ''F'']]]"

fun add_elements :: "tag_ref list \<Rightarrow> tag_ref list \<times> string set \<Rightarrow> tag_ref list \<times> string set" where
  \<comment> \<open>the inner loop of \<^verbatim>\<open>_find_figure_elements\<close> on the state \<^verbatim>\<open>(figures, seen_ids)\<close>\<close>
  "add_elements [] (figures, seen_ids) = (figures, seen_ids)"
| "add_elements (elem # elements) (figures, seen_ids) =
     (let elem_id = py_or_str (get_attr (tag_node elem) ''id'') (''fig_'' @ str_nat (length figures)) in
      if elem_id \<notin> seen_ids then add_elements elements (figures @ [elem], insert elem_id seen_ids)
      else add_elements elements (figures, seen_ids))"

fun add_selectors :: "node list \<Rightarrow> selector list \<Rightarrow> tag_ref list \<times> string set \<Rightarrow> tag_ref list \<times> string set" where
  \<comment> \<open>the outer loop of \<^verbatim>\<open>_find_figure_elements\<close>\<close>
  "add_selectors soup [] st = st"
| "add_selectors soup (sel # sels) st = add_selectors soup sels (add_elements (soup_select sel soup) st)"

definition find_figure_elements :: "node list \<Rightarrow> tag_ref list" where
  \<comment> \<open>\<^verbatim>\<open>_find_figure_elements\<close>\<close>
  "find_figure_elements soup = fst (add_selectors soup figure_selectors ([], {}))"

section \<open>The orchestrator\<close>

text \<open>
  \<^verbatim>\<open>scrape_figures\<close> wraps each call of \<^verbatim>\<open>_extract_figure_info\<close> in
  \<^verbatim>\<open>try ... except Exception: continue\<close> and its whole body in
  \<^verbatim>\<open>try ... except Exception: return []\<close>. The loop is modelled over any per-figure
  extractor that may raise; the scraper's own extractor, as modelled above, has no raising
  path.
\<close>

type_synonym extractor = "tag_ref \<Rightarrow> string \<Rightarrow> nat \<Rightarrow> (exn + figure_record option) \<times> string list"

fun process_figures ::
  "extractor \<Rightarrow> string \<Rightarrow> nat \<Rightarrow> tag_ref list \<Rightarrow> figure_record list \<times> string list
     \<Rightarrow> figure_record list \<times> string list" where
  \<comment> \<open>the loop \<^verbatim>\<open>for i, fig_elem in enumerate(figures, 1)\<close> on \<^verbatim>\<open>figure_data\<close> and the request log\<close>
  "process_figures ex pmcid i [] (figure_data, log) = (figure_data, log)"
| "process_figures ex pmcid i (fig_elem # figures) (figure_data, log) =
     (case ex fig_elem pmcid i of
        (Inr (Some figure_info), requests) \<Rightarrow>
          process_figures ex pmcid (Suc i) figures (figure_data @ [figure_info], log @ requests)
      | (Inr None, requests) \<Rightarrow>
          process_figures ex pmcid (Suc i) figures (figure_data, log @ requests)
      | (Inl e, requests) \<Rightarrow>
          process_figures ex pmcid (Suc i) figures (figure_data, log @ requests))"

definition normalize_pmcid :: "string \<Rightarrow> string" where
  \<comment> \<open>\<^verbatim>\<open>_normalize_pmcid\<close>\<close>
  "normalize_pmcid pmcid0 =
     (let pmcid = strip pmcid0 in
      if \<not> startswith pmcid ''PMC'' then ''PMC'' @ pmcid else pmcid)"

definition paper_url :: "string \<Rightarrow> string" where
  "paper_url pmcid = ''https://www.ncbi.nlm.nih.gov/pmc/articles/'' @ pmcid @ ''/''"

definition raise_for_status :: "nat \<Rightarrow> exn option" where
  \<comment> \<open>\<^verbatim>\<open>response.raise_for_status()\<close> of requests: an \<^verbatim>\<open>HTTPError\<close> for a 4xx or 5xx status\<close>
  "raise_for_status status_code =
     (if 400 \<le> status_code \<and> status_code < 600 then Some (Exn ''HTTPError'') else None)"

definition scrape_figures_try :: "extractor \<Rightarrow> world \<Rightarrow> string \<Rightarrow> (exn + figure_record list) \<times> string list" where
  \<comment> \<open>the outer \<^verbatim>\<open>try\<close> block of \<^verbatim>\<open>scrape_figures\<close>; \<open>Inl e\<close> is an exception leaving it\<close>
  "scrape_figures_try ex w pmcid =
     (case w (paper_url pmcid) of
        Inl e \<Rightarrow> (Inl e, [paper_url pmcid])
      | Inr (Response status_code content) \<Rightarrow>
          (case raise_for_status status_code of
             Some e \<Rightarrow> (Inl e, [paper_url pmcid])
           | None \<Rightarrow>
               (let figures = find_figure_elements content;
                    (figure_data, log) = process_figures ex pmcid 1 figures ([], [paper_url pmcid])
                in (Inr figure_data, log))))"

definition scrape_figures_with :: "extractor \<Rightarrow> world \<Rightarrow> string \<Rightarrow> (exn + figure_record list) \<times> string list" where
  \<comment> \<open>\<^verbatim>\<open>scrape_figures\<close> with its handler; \<open>Inl e\<close> would be an exception reaching the caller\<close>
  "scrape_figures_with ex w pmcid0 =
     (let pmcid = normalize_pmcid pmcid0 in
      case scrape_figures_try ex w pmcid of
        (Inl e, log) \<Rightarrow> (Inr [], log)
      | (Inr figure_data, log) \<Rightarrow> (Inr figure_data, log))"

definition own_extractor :: "world \<Rightarrow> extractor" where
  "own_extractor w fig_elem pmcid i =
     (case extract_figure_info w fig_elem pmcid i of (info, requests) \<Rightarrow> (Inr info, requests))"

definition scrape_figures :: "world \<Rightarrow> string \<Rightarrow> (exn + figure_record list) \<times> string list" where
  \<comment> \<open>\<^verbatim>\<open>scrape_figures\<close>\<close>
  "scrape_figures w pmcid0 = scrape_figures_with (own_extractor w) w pmcid0"

section \<open>Notions used in the statements\<close>

text \<open>
  The specification speaks of inputs ``already starting with a scheme''. A scheme, as in
  a URL, is a letter followed by letters, digits, \<^verbatim>\<open>+\<close>, \<^verbatim>\<open>-\<close> and \<^verbatim>\<open>.\<close>, and
  ends at a colon.
\<close>

definition scheme_letters :: "char list" where
  "scheme_letters = ''abcdefghijklmnopqrstuvwxyzABCDEFGHIJKLMNOPQRSTUVWXYZ''"

definition scheme_chars :: "char list" where
  "scheme_chars = scheme_letters @ ''0123456789+-.''"

definition spec_starts_with_scheme :: "string \<Rightarrow> bool" where
  "spec_starts_with_scheme url =
     (let name = takeWhile (\<lambda>c. c \<in> set scheme_chars) url in
      name \<noteq> [] \<and> hd name \<in> set scheme_letters \<and> startswith (drop (length name) url) '':'')"

text \<open>
  The trimmed texts of the caption candidates of a figure element, one per selector that
  matches, in selector order; and the selector pass of caption extraction as the
  specification words it, with the length gate on the collapsed text.
\<close>

definition caption_texts :: "tag_ref \<Rightarrow> selector list \<Rightarrow> string list" where
  "caption_texts fig_elem sels =
     List.map_filter
       (\<lambda>sel. map_option (\<lambda>e. strip (get_text (tag_node e))) (select_one sel fig_elem)) sels"

definition spec_first_caption :: "tag_ref \<Rightarrow> selector list \<Rightarrow> string option" where
  "spec_first_caption fig_elem sels =
     List.find (\<lambda>text. length text > 10) (map collapse_ws (caption_texts fig_elem sels))"

text \<open>
  The identifier \<^verbatim>\<open>_extract_figure_info\<close> gives a figure element at an ordinal, the URL
  the resolver returns for it, and what the loop of \<^verbatim>\<open>scrape_figures\<close> keeps of one
  extraction.
\<close>

definition assigned_id :: "tag_ref \<Rightarrow> nat \<Rightarrow> string" where
  "assigned_id fig_elem fig_number =
     py_or_str (get_attr (tag_node fig_elem) ''id'') (''figure_'' @ str_nat fig_number)"

definition resolved_url :: "world \<Rightarrow> tag_ref \<Rightarrow> string \<Rightarrow> nat \<Rightarrow> string" where
  "resolved_url w fig_elem pmcid fig_number =
     fst (get_cdn_image_url w fig_elem pmcid (assigned_id fig_elem fig_number))"

definition kept :: "exn + figure_record option \<Rightarrow> figure_record option" where
  "kept r = (case r of Inr (Some figure_info) \<Rightarrow> Some figure_info | Inr None \<Rightarrow> None | Inl e \<Rightarrow> None)"

text \<open>
  The candidates of the secondary-page scan in scan order: for each selector in turn, the
  normalized \<^verbatim>\<open>src\<close> of every matching image that has one. The second definition is
  the scan as the specification words it: a direct asset found anywhere wins, a lesser
  candidate is returned only when the scan has found no direct asset.
\<close>

definition candidate_url :: "tag_ref \<Rightarrow> string option" where
  "candidate_url img_tag =
     (case get_attr (tag_node img_tag) ''src'' of
        None \<Rightarrow> None
      | Some src \<Rightarrow> if src = [] then None else Some (normalize_url src))"

definition scan_candidates :: "node list \<Rightarrow> selector list \<Rightarrow> string list" where
  "scan_candidates soup sels =
     concat (map (\<lambda>sel. List.map_filter candidate_url (soup_select sel soup)) sels)"

definition spec_scan_result :: "node list \<Rightarrow> selector list \<Rightarrow> string" where
  "spec_scan_result soup sels =
     (let candidates = scan_candidates soup sels in
      case List.find (\<lambda>url. classify url = DirectAsset) candidates of
        Some url \<Rightarrow> url
      | None \<Rightarrow>
          (case List.find (\<lambda>url. classify url = GenericRepositoryImage) candidates of
             Some url \<Rightarrow> url
           | None \<Rightarrow> []))"

text \<open>
  The figure identifiers of the records \<^verbatim>\<open>scrape_figures\<close> returns, in order.
\<close>

definition emitted_ids :: "world \<Rightarrow> string \<Rightarrow> string list" where
  "emitted_ids w pmcid0 =
     (case fst (scrape_figures w pmcid0) of
        Inr records \<Rightarrow> map figure_id records
      | Inl e \<Rightarrow> [])"

section \<open>Example pages\<close>

text \<open>
  The figure elements, pages and networks the closed statements below are evaluated on.
  \<^item> \<open>panel_figure\<close>: a \<^verbatim>\<open>div.fig\<close> holding one \<^verbatim>\<open>div.caption\<close> with the caption text
    of the specification's example; \<open>spaced_figure\<close>: a \<^verbatim>\<open>figure\<close> whose
    \<^verbatim>\<open>figcaption\<close> is an \<^verbatim>\<open>a\<close>, nine spaces and a \<^verbatim>\<open>b\<close>; \<open>bare_figure\<close>: an empty
    \<^verbatim>\<open>figure\<close>; \<open>inline_figure\<close>: a \<^verbatim>\<open>div.fig\<close> holding an image with the
    root-relative reference of the specification's example. None has a following sibling.
  \<^item> \<open>lesser_first_page\<close>: an image of class \<^verbatim>\<open>figure-image\<close> on the NCBI host outside
    the asset store, then an image with a relative reference into the asset store;
    \<open>priority_page\<close>: an image whose \<^verbatim>\<open>alt\<close> mentions the figure, then an image on the
    CDN; \<open>three_figures_page\<close>: three captioned \<^verbatim>\<open>div.fig\<close> blocks without \<^verbatim>\<open>id\<close>.
  \<^item> \<open>world_page url status content\<close> answers \<open>url\<close> with the given status and page
    and every other URL with 404; \<open>world_404\<close> answers 404 everywhere and
    \<open>world_timeout\<close> raises everywhere; \<open>raising_extractor\<close> raises on the second
    figure and is the scraper's own extractor elsewhere.
\<close>

definition panel_figure :: tag_ref where
  "panel_figure =
     \<lparr>tag_node = Element ''div'' [(''class'', ''fig'')]
        [Element ''div'' [(''class'', ''caption'')] [Text ''   Panel A shows   focal  necrosis.   '']],
      tag_parents = [], tag_next = None\<rparr>"

definition spaced_figure :: tag_ref where
  "spaced_figure =
     \<lparr>tag_node = Element ''figure'' [] [Element ''figcaption'' [] [Text ''a         b'']],
      tag_parents = [], tag_next = None\<rparr>"

definition world_404 :: world where
  "world_404 url = Inr (Response 404 [])"

definition bare_figure :: tag_ref where
  "bare_figure = \<lparr>tag_node = Element ''figure'' [] [], tag_parents = [], tag_next = None\<rparr>"

definition lesser_first_page :: "node list" where
  "lesser_first_page =
     [Element ''div'' [(''class'', ''content'')]
        [Element ''img'' [(''class'', ''figure-image''),
                          (''src'', ''https://www.ncbi.nlm.nih.gov/corehtml/pmc/fig1.png'')] [],
         Element ''img'' [(''src'', ''pmc/blobs/abc/fig1.jpg'')] []]]"

definition priority_page :: "node list" where
  "priority_page =
     [Element ''div'' [(''class'', ''content'')]
        [Element ''img'' [(''alt'', ''Figure 1''),
                          (''src'', ''https://www.ncbi.nlm.nih.gov/corehtml/pmc/fig1.png'')] [],
         Element ''img'' [(''src'', ''https://cdn.ncbi.nlm.nih.gov/pmc/blobs/abc/fig1.jpg'')] []]]"

definition world_page :: "string \<Rightarrow> nat \<Rightarrow> node list \<Rightarrow> world" where
  "world_page url status_code content u =
     (if u = url then Inr (Response status_code content) else Inr (Response 404 []))"

definition inline_figure :: tag_ref where
  "inline_figure =
     \<lparr>tag_node = Element ''div'' [(''class'', ''fig'')]
        [Element ''img'' [(''src'', ''/pmc/blobs/abc/fig1.jpg'')] []],
      tag_parents = [], tag_next = None\<rparr>"

definition three_figures_page :: "node list" where
  "three_figures_page =
     [Element ''div'' [(''class'', ''fig'')]
        [Element ''div'' [(''class'', ''caption'')] [Text ''Chest radiograph on admission.'']],
      Element ''div'' [(''class'', ''fig'')]
        [Element ''div'' [(''class'', ''caption'')] [Text ''Axial CT showing the lesion.'']],
      Element ''div'' [(''class'', ''fig'')]
        [Element ''div'' [(''class'', ''caption'')] [Text ''Histology, H and E stain.'']]]"



definition three_figures_world :: world where
  "three_figures_world =
     world_page ''https://www.ncbi.nlm.nih.gov/pmc/articles/PMC1/'' 200 three_figures_page"


definition panel_record :: figure_record where
  "panel_record =
     \<lparr>figure_id = ''figure_1'', label = ''Figure 1'', caption = ''Panel A shows focal necrosis.'',
      image_url = ''https://www.ncbi.nlm.nih.gov/pmc/articles/PMC1/figure/figure_1/'',
      figure_url = ''https://www.ncbi.nlm.nih.gov/pmc/articles/PMC1/figure/figure_1/''\<rparr>"

section \<open>Properties of the string operations\<close>

lemma startswith_iff: "startswith s p \<longleftrightarrow> (\<exists>r. s = p @ r)"
  by (induction s p rule: startswith.induct) auto

lemma str_in_iff: "str_in p s \<longleftrightarrow> (\<exists>a b. s = a @ p @ b)"
proof (induction s)
  case Nil
  show ?case by auto
next
  case (Cons c cs)
  show ?case
  proof
    assume "str_in p (c # cs)"
    then consider "startswith (c # cs) p" | "str_in p cs" by auto
    then show "\<exists>a b. c # cs = a @ p @ b"
    proof cases
      case 1
      then obtain r where "c # cs = p @ r" by (auto simp: startswith_iff)
      then have "c # cs = [] @ p @ r" by simp
      then show ?thesis by blast
    next
      case 2
      then obtain a b where "cs = a @ p @ b" using Cons.IH by blast
      then have "c # cs = (c # a) @ p @ b" by simp
      then show ?thesis by blast
    qed
  next
    assume "\<exists>a b. c # cs = a @ p @ b"
    then obtain a b where ab: "c # cs = a @ p @ b" by blast
    show "str_in p (c # cs)"
    proof (cases a)
      case Nil
      with ab have "startswith (c # cs) p" by (auto simp: startswith_iff)
      then show ?thesis by simp
    next
      case (Cons x a')
      with ab have "cs = a' @ p @ b" by simp
      then have "str_in p cs" using Cons.IH by blast
      then show ?thesis by simp
    qed
  qed
qed

lemma last_dropWhile_ne: "dropWhile P xs \<noteq> [] \<Longrightarrow> last (dropWhile P xs) = last xs"
proof -
  assume ne: "dropWhile P xs \<noteq> []"
  have "last (takeWhile P xs @ dropWhile P xs) = last (dropWhile P xs)"
    using ne by (rule last_appendR)
  then show ?thesis by simp
qed

lemma strip_Nil: "strip [] = []"
  by (simp add: strip_def)

lemma strip_ends:
  assumes "strip s \<noteq> []"
  shows "\<not> is_space (hd (strip s))" and "\<not> is_space (last (strip s))"
proof -
  define ys where "ys = dropWhile is_space s"
  define zs where "zs = dropWhile is_space (rev ys)"
  have st: "strip s = rev zs" by (simp add: strip_def ys_def zs_def)
  with assms have zs: "zs \<noteq> []" by simp
  then have ys: "ys \<noteq> []" by (auto simp: zs_def)
  have "\<not> is_space (hd zs)" using zs unfolding zs_def by (rule hd_dropWhile)
  then show "\<not> is_space (last (strip s))" using zs by (simp add: st last_rev)
  have "last zs = last (rev ys)" using zs unfolding zs_def by (rule last_dropWhile_ne)
  also have "\<dots> = hd ys" using ys by (simp add: last_rev)
  finally have "hd (rev zs) = hd ys" using zs by (simp add: hd_rev)
  moreover have "\<not> is_space (hd ys)" using ys unfolding ys_def by (rule hd_dropWhile)
  ultimately show "\<not> is_space (hd (strip s))" by (simp add: st)
qed

lemma strip_fixed:
  assumes "s \<noteq> []" "\<not> is_space (hd s)" "\<not> is_space (last s)"
  shows "strip s = s"
proof -
  have a: "dropWhile is_space s = s" using assms(1,2) by (cases s) auto
  have "rev s \<noteq> []" "\<not> is_space (hd (rev s))" using assms(1,3) by (simp_all add: hd_rev)
  then have b: "dropWhile is_space (rev s) = rev s" by (cases "rev s") auto
  show ?thesis by (simp add: strip_def a b)
qed

lemma strip_strip: "strip (strip s) = strip s"
proof (cases "strip s = []")
  case True
  then show ?thesis by (simp add: strip_Nil)
next
  case False
  then show ?thesis by (intro strip_fixed strip_ends)
qed

lemma strip_append:
  assumes "a \<noteq> []" "\<not> is_space (hd a)" "\<not> is_space (last (a @ strip t))"
  shows "strip (a @ strip t) = a @ strip t"
  using assms by (intro strip_fixed) auto

lemma last_append_strip:
  assumes "a \<noteq> []" "\<not> is_space (last a)"
  shows "\<not> is_space (last (a @ strip t))"
proof (cases "strip t = []")
  case True
  then show ?thesis using assms by simp
next
  case False
  then show ?thesis using strip_ends(2)[of t] by simp
qed

lemma not_space_simps: "\<not> is_space CHR ''h''" "\<not> is_space CHR ''/''" "\<not> is_space CHR '':''" "\<not> is_space CHR ''v''"
  by (simp_all add: is_space_def whitespace_def)

lemma normalize_url_idem: "normalize_url (normalize_url u) = normalize_url u"
proof (cases "u = []")
  case True
  then show ?thesis by (simp add: normalize_url_def)
next
  case False
  define t where "t = strip u"
  have tt: "strip t = t" by (simp add: t_def strip_strip)
  have pre: "strip (a @ t) = a @ t" if "a \<noteq> []" "\<not> is_space (hd a)" "\<not> is_space (last a)" for a
    using strip_append[of a u] last_append_strip[of a u] that by (simp add: t_def)
  consider (pr) "startswith t ''//''" | (rr) "\<not> startswith t ''//''" "startswith t ''/''"
    | (ht) "\<not> startswith t ''//''" "\<not> startswith t ''/''" "startswith t ''http''"
    | (ot) "\<not> startswith t ''//''" "\<not> startswith t ''/''" "\<not> startswith t ''http''"
    by blast
  then show ?thesis
  proof cases
    case pr
    then have n: "normalize_url u = ''https:'' @ t" using False by (simp add: normalize_url_def t_def)
    have "strip (''https:'' @ t) = ''https:'' @ t" by (rule pre) (simp_all add: not_space_simps)
    then show ?thesis unfolding n by (simp add: normalize_url_def)
  next
    case rr
    then have n: "normalize_url u = site_origin @ t" using False by (simp add: normalize_url_def t_def)
    have "strip (site_origin @ t) = site_origin @ t" by (rule pre) (simp_all add: not_space_simps site_origin_def)
    then show ?thesis unfolding n by (simp add: normalize_url_def site_origin_def)
  next
    case ht
    then have n: "normalize_url u = t" using False by (simp add: normalize_url_def t_def)
    from ht have "t \<noteq> []" by auto
    then show ?thesis unfolding n using ht by (simp add: normalize_url_def tt)
  next
    case ot
    then have n: "normalize_url u = site_origin @ ''/'' @ t" using False by (simp add: normalize_url_def t_def)
    have "strip ((site_origin @ ''/'') @ t) = (site_origin @ ''/'') @ t" by (rule pre) (simp_all add: not_space_simps site_origin_def)
    then show ?thesis unfolding n by (simp add: normalize_url_def site_origin_def)
  qed
qed

section \<open>Classification and normalization\<close>

lemma list_ex_str_in: "list_ex (\<lambda>p. str_in p s) ps \<longleftrightarrow> (\<exists>p\<in>set ps. \<exists>a b. s = a @ p @ b)"
  by (simp add: list_ex_iff str_in_iff)

lemma is_cdn_url_iff:
  "is_cdn_url url \<longleftrightarrow>
     (\<exists>marker\<in>set cdn_patterns. \<exists>a b. url = a @ marker @ b) \<and>
     (\<exists>ext\<in>set image_extensions. \<exists>a b. lower url = a @ ext @ b)"
proof (cases "url = []")
  case True
  then show ?thesis by (simp add: is_cdn_url_def cdn_patterns_def)
next
  case False
  then show ?thesis by (simp add: is_cdn_url_def list_ex_str_in)
qed

lemma classify_total: "classify url = DirectAsset \<or> classify url = GenericRepositoryImage \<or> classify url = Unusable"
  by (cases "classify url") simp_all

lemma classify_not_a_url: "classify ''not a url'' = Unusable"
  by code_simp

lemma classify_marker_only: "classify ''https://cdn.ncbi.nlm.nih.gov/pmc/blobs/abc/fig1'' = Unusable"
  by code_simp

lemma classify_ext_only2: "classify ''https://example.org/fig1.jpg'' = Unusable"
  by code_simp

lemma classify_upper: "classify ''https://cdn.ncbi.nlm.nih.gov/pmc/blobs/abc/FIG1.JPG'' = DirectAsset"
  by code_simp

text \<open>
  Claim C3. Classification is a total function into the three classes. A string is a
  direct asset exactly when it contains one of the two path markers and its lower-cased
  form contains one of the five image extensions; a marker alone or an extension alone
  does not suffice, the extension is found whatever its case, and \<^verbatim>\<open>"not a url"\<close>
  is unusable.
\<close>

theorem classify_direct_asset:
  "(classify url = DirectAsset \<longleftrightarrow>
      (\<exists>marker\<in>set cdn_patterns. \<exists>a b. url = a @ marker @ b) \<and>
      (\<exists>ext\<in>set image_extensions. \<exists>a b. lower url = a @ ext @ b)) \<and>
   (classify url = GenericRepositoryImage \<longleftrightarrow>
      classify url \<noteq> DirectAsset \<and> (\<exists>a b. url = a @ ''ncbi.nlm.nih.gov'' @ b) \<and>
      (\<exists>ext\<in>set [''.jpg'', ''.jpeg'', ''.png'']. \<exists>a b. lower url = a @ ext @ b)) \<and>
   (classify url = DirectAsset \<or> classify url = GenericRepositoryImage \<or> classify url = Unusable) \<and>
   classify ''not a url'' = Unusable \<and>
   classify ''https://cdn.ncbi.nlm.nih.gov/pmc/blobs/abc/fig1'' \<noteq> DirectAsset \<and>
   classify ''https://example.org/fig1.jpg'' \<noteq> DirectAsset \<and>
   classify ''https://cdn.ncbi.nlm.nih.gov/pmc/blobs/abc/FIG1.JPG'' = DirectAsset"
proof -
  have a: "classify url = DirectAsset \<longleftrightarrow> is_cdn_url url"
    by (simp add: classify_def)
  have b: "classify url = GenericRepositoryImage \<longleftrightarrow> classify url \<noteq> DirectAsset \<and> is_ncbi_image_url url"
    by (simp add: classify_def)
  have c: "is_ncbi_image_url url \<longleftrightarrow> (\<exists>a b. url = a @ ''ncbi.nlm.nih.gov'' @ b) \<and>
      (\<exists>ext\<in>set [''.jpg'', ''.jpeg'', ''.png'']. \<exists>a b. lower url = a @ ext @ b)"
    unfolding is_ncbi_image_url_def list_ex_str_in by (simp only: str_in_iff)
  have A: "classify url = DirectAsset \<longleftrightarrow>
      (\<exists>marker\<in>set cdn_patterns. \<exists>a b. url = a @ marker @ b) \<and>
      (\<exists>ext\<in>set image_extensions. \<exists>a b. lower url = a @ ext @ b)"
    unfolding a by (rule is_cdn_url_iff)
  have B: "classify url = GenericRepositoryImage \<longleftrightarrow>
      classify url \<noteq> DirectAsset \<and> (\<exists>a b. url = a @ ''ncbi.nlm.nih.gov'' @ b) \<and>
      (\<exists>ext\<in>set [''.jpg'', ''.jpeg'', ''.png'']. \<exists>a b. lower url = a @ ext @ b)"
    using b c by simp
  have D: "classify ''https://cdn.ncbi.nlm.nih.gov/pmc/blobs/abc/fig1'' \<noteq> DirectAsset"
    by (simp add: classify_marker_only)
  have E: "classify ''https://example.org/fig1.jpg'' \<noteq> DirectAsset"
    by (simp add: classify_ext_only2)
  show ?thesis
    by (intro conjI) (fact A B classify_total classify_not_a_url D E classify_upper)+
qed

theorem classify_direct_asset_witness:
  "(\<exists>marker\<in>set cdn_patterns. \<exists>a b. ''https://cdn.ncbi.nlm.nih.gov/pmc/blobs/abc/fig1.jpg'' = a @ marker @ b) \<and>
   (\<exists>ext\<in>set image_extensions. \<exists>a b. lower ''https://cdn.ncbi.nlm.nih.gov/pmc/blobs/abc/fig1.jpg'' = a @ ext @ b)"
proof -
  have e: "classify ''https://cdn.ncbi.nlm.nih.gov/pmc/blobs/abc/fig1.jpg'' = DirectAsset"
    by code_simp
  show ?thesis
    using classify_direct_asset[of "''https://cdn.ncbi.nlm.nih.gov/pmc/blobs/abc/fig1.jpg''"] e
    by blast
qed

text \<open>
  Claim C7, as amended. Normalization works on the trimmed input. A trimmed input that
  starts with \<^verbatim>\<open>//\<close> gets \<^verbatim>\<open>https:\<close> in front; one that starts with a single
  \<^verbatim>\<open>/\<close> gets the site origin in front; one that starts with \<^verbatim>\<open>http\<close> is returned as it
  is; every other non-empty input, whatever it starts with, gets the site origin and a
  slash in front. Normalizing twice equals normalizing once, on every string.
\<close>

theorem normalize_url_cases:
  "(startswith (strip u) ''//'' \<longrightarrow> normalize_url u = ''https:'' @ strip u) \<and>
   (startswith (strip u) ''/'' \<and> \<not> startswith (strip u) ''//'' \<longrightarrow> normalize_url u = site_origin @ strip u) \<and>
   (startswith (strip u) ''http'' \<longrightarrow> normalize_url u = strip u) \<and>
   (u \<noteq> [] \<and> \<not> startswith (strip u) ''/'' \<and> \<not> startswith (strip u) ''http''
      \<longrightarrow> normalize_url u = site_origin @ ''/'' @ strip u) \<and>
   normalize_url (normalize_url u) = normalize_url u"
proof -
  have four:
    "(startswith (strip u) ''//'' \<longrightarrow> normalize_url u = ''https:'' @ strip u) \<and>
     (startswith (strip u) ''/'' \<and> \<not> startswith (strip u) ''//'' \<longrightarrow> normalize_url u = site_origin @ strip u) \<and>
     (startswith (strip u) ''http'' \<longrightarrow> normalize_url u = strip u) \<and>
     (u \<noteq> [] \<and> \<not> startswith (strip u) ''/'' \<and> \<not> startswith (strip u) ''http''
        \<longrightarrow> normalize_url u = site_origin @ ''/'' @ strip u)"
  proof (cases "strip u")
    case Nil
    then show ?thesis by (simp add: normalize_url_def)
  next
    case (Cons c cs)
    then have "u \<noteq> []" by (auto simp: strip_Nil)
    then have "normalize_url u =
       (if startswith (c # cs) ''//'' then ''https:'' @ c # cs
        else if startswith (c # cs) ''/'' then site_origin @ c # cs
        else if startswith (c # cs) ''http'' then c # cs
        else site_origin @ ''/'' @ c # cs)"
      by (auto simp: normalize_url_def Cons Let_def)
    then show ?thesis using Cons by auto
  qed
  show ?thesis using four normalize_url_idem[of u] by blast
qed

theorem normalize_url_cases_witness:
  "normalize_url ''//host/path.jpg'' = ''https://host/path.jpg'' \<and>
   normalize_url ''/pmc/blobs/abc/fig1.jpg'' = ''https://www.ncbi.nlm.nih.gov/pmc/blobs/abc/fig1.jpg'' \<and>
   normalize_url ''https://host/path.jpg'' = ''https://host/path.jpg'' \<and>
   normalize_url ''bin/fig1.jpg'' = ''https://www.ncbi.nlm.nih.gov/bin/fig1.jpg'' \<and>
   normalize_url (normalize_url ''//host/path.jpg'') = ''https://host/path.jpg''"
proof -
  have s: "strip ''//host/path.jpg'' = ''//host/path.jpg''"
    "strip ''/pmc/blobs/abc/fig1.jpg'' = ''/pmc/blobs/abc/fig1.jpg''"
    "strip ''https://host/path.jpg'' = ''https://host/path.jpg''"
    "strip ''bin/fig1.jpg'' = ''bin/fig1.jpg''"
    by (simp_all add: strip_def is_space_def whitespace_def)
  show ?thesis
    using normalize_url_cases[of "''//host/path.jpg''"]
      normalize_url_cases[of "''/pmc/blobs/abc/fig1.jpg''"]
      normalize_url_cases[of "''https://host/path.jpg''"]
      normalize_url_cases[of "''bin/fig1.jpg''"]
    by (simp add: s site_origin_def)
qed

text \<open>
  The claim as stated lets every input that starts with a scheme pass through. The code
  tests for the prefix \<^verbatim>\<open>http\<close> only: an \<^verbatim>\<open>ftp\<close> URL starts with a scheme and is
  prefixed with the site origin.
\<close>

theorem normalize_url_scheme_counterexample:
  "spec_starts_with_scheme ''ftp://host/path.jpg'' \<and>
   normalize_url ''ftp://host/path.jpg'' = ''https://www.ncbi.nlm.nih.gov/ftp://host/path.jpg'' \<and>
   normalize_url ''ftp://host/path.jpg'' \<noteq> ''ftp://host/path.jpg''"
  by (simp add: spec_starts_with_scheme_def scheme_chars_def scheme_letters_def normalize_url_def strip_def is_space_def whitespace_def site_origin_def)

section \<open>Caption extraction\<close>

lemma first_caption_find:
  "first_caption fig sels =
     map_option collapse_ws (List.find (\<lambda>text. length text > 10) (caption_texts fig sels))"
proof (induction sels)
  case Nil
  show ?case by (simp add: caption_texts_def map_filter_simps)
next
  case (Cons sel sels)
  show ?case
  proof (cases "select_one sel fig")
    case None
    then show ?thesis using Cons by (simp add: caption_texts_def map_filter_simps)
  next
    case (Some e)
    then show ?thesis using Cons by (simp add: caption_texts_def map_filter_simps Let_def)
  qed
qed

lemma filter_dropWhile_not: "filter (\<lambda>c. \<not> P c) (dropWhile P xs) = filter (\<lambda>c. \<not> P c) xs"
  by (induction xs) auto

lemma collapse_ws_keeps: "filter (\<lambda>c. \<not> is_space c) (collapse_ws s) = filter (\<lambda>c. \<not> is_space c) s"
proof (induction s rule: collapse_ws.induct)
  case 1
  show ?case by simp
next
  case (2 c cs)
  have sp: "is_space CHR '' ''" by (simp add: is_space_def whitespace_def)
  show ?case
  proof (cases "is_space c")
    case True
    then show ?thesis using 2 sp by (simp add: filter_dropWhile_not)
  next
    case False
    then show ?thesis using 2 by simp
  qed
qed

lemma collapse_ws_space: "c \<in> set (collapse_ws s) \<Longrightarrow> is_space c \<Longrightarrow> c = CHR '' ''"
proof (induction s rule: collapse_ws.induct)
  case 1
  then show ?case by simp
next
  case (2 d ds)
  then show ?case by (cases "is_space d") auto
qed

lemma collapse_ws_hd: "s \<noteq> [] \<Longrightarrow> \<not> is_space (hd s) \<Longrightarrow> collapse_ws s \<noteq> [] \<and> hd (collapse_ws s) = hd s"
  by (cases s) auto

lemma collapse_ws_Nil_iff: "collapse_ws s = [] \<longleftrightarrow> s = []"
  by (cases s) auto

lemma collapse_ws_single:
  "successively (\<lambda>a b. \<not> (is_space a \<and> is_space b)) (collapse_ws s)"
proof (induction s rule: collapse_ws.induct)
  case 1
  show ?case by simp
next
  case (2 c cs)
  show ?case
  proof (cases "is_space c")
    case True
    define r where "r = dropWhile is_space cs"
    have ih: "successively (\<lambda>a b. \<not> (is_space a \<and> is_space b)) (collapse_ws r)"
      using 2 True by (simp add: r_def)
    show ?thesis
    proof (cases r)
      case Nil
      then show ?thesis using True by (simp add: r_def[symmetric])
    next
      case (Cons x xs)
      then have "\<not> is_space x" using hd_dropWhile[of is_space cs] by (simp add: r_def[symmetric])
      then have "collapse_ws r = x # collapse_ws xs" using Cons by simp
      then show ?thesis using ih True \<open>\<not> is_space x\<close> by (simp add: r_def[symmetric] successively_Cons)
    qed
  next
    case False
    then show ?thesis using 2 by (cases "collapse_ws cs") (auto simp: successively_Cons)
  qed
qed

lemma collapse_ws_last: "s \<noteq> [] \<Longrightarrow> \<not> is_space (last s) \<Longrightarrow> \<not> is_space (last (collapse_ws s))"
proof (induction s rule: collapse_ws.induct)
  case 1
  then show ?case by simp
next
  case (2 c cs)
  show ?case
  proof (cases "is_space c")
    case True
    define r where "r = dropWhile is_space cs"
    from "2.prems" True have cs: "cs \<noteq> []" by auto
    then have "last cs = last (c # cs)" by simp
    then have lc: "\<not> is_space (last cs)" using "2.prems" by simp
    have rne: "r \<noteq> []"
    proof
      assume "r = []"
      then have "\<forall>x\<in>set cs. is_space x" by (simp add: r_def dropWhile_eq_Nil_conv)
      then show False using lc cs by (meson last_in_set)
    qed
    have "last (takeWhile is_space cs @ r) = last r"
      using rne by (rule last_appendR)
    then have lr: "last r = last cs" by (simp add: r_def)
    have "\<not> is_space (last (collapse_ws r))"
      using "2.IH"(1)[OF True] rne lc lr by (simp add: r_def)
    moreover have "collapse_ws r \<noteq> []" using rne by (simp add: collapse_ws_Nil_iff)
    ultimately show ?thesis using True by (simp add: r_def[symmetric])
  next
    case False
    show ?thesis
    proof (cases "cs = []")
      case True
      then show ?thesis using False by simp
    next
      case ne: False
      then have "\<not> is_space (last (collapse_ws cs))" using "2.IH"(2)[OF False] "2.prems" by simp
      then show ?thesis using False ne by (simp add: collapse_ws_Nil_iff)
    qed
  qed
qed

lemma caption_texts_stripped: "text \<in> set (caption_texts fig sels) \<Longrightarrow> \<exists>t. text = strip t"
  by (induction sels) (auto simp: caption_texts_def split: option.splits)

lemma extract_figure_caption_find:
  "extract_figure_caption fig =
     (case List.find (\<lambda>text. length text > 10) (caption_texts fig caption_selectors) of
        Some text \<Rightarrow> collapse_ws text
      | None \<Rightarrow>
          (case find_next_sibling fig of
             None \<Rightarrow> []
           | Some sib \<Rightarrow>
               if length (strip (get_text sib)) > 20 then collapse_ws (strip (get_text sib))
               else []))"
  by (auto simp: extract_figure_caption_def first_caption_find sibling_caption_def Let_def
        split: option.splits)

lemma caption_form: "\<exists>t. extract_figure_caption fig = collapse_ws (strip t)"
proof -
  have nil: "collapse_ws (strip []) = []" by (simp add: strip_Nil)
  show ?thesis
  proof (cases "List.find (\<lambda>text. length text > 10) (caption_texts fig caption_selectors)")
    case (Some cap)
    then have "cap \<in> set (caption_texts fig caption_selectors)"
      by (auto simp: find_Some_iff)
    then obtain t where t: "cap = strip t" using caption_texts_stripped by blast
    have "extract_figure_caption fig = collapse_ws cap"
      by (simp only: extract_figure_caption_find Some option.case)
    then show ?thesis using t by blast
  next
    case None
    note n = None
    show ?thesis
    proof (cases "find_next_sibling fig")
      case None
      have "extract_figure_caption fig = []"
        by (simp only: extract_figure_caption_find n None option.case)
      then show ?thesis using nil by metis
    next
      case (Some sib)
      show ?thesis
      proof (cases "length (strip (get_text sib)) > 20")
        case True
        have "extract_figure_caption fig = collapse_ws (strip (get_text sib))"
          by (simp only: extract_figure_caption_find n Some option.case True if_True)
        then show ?thesis by blast
      next
        case False
        have "extract_figure_caption fig = []"
          by (simp only: extract_figure_caption_find n Some option.case False if_False)
        then show ?thesis using nil by metis
      qed
    qed
  qed
qed

lemma caption_ends:
  assumes "extract_figure_caption fig \<noteq> []"
  shows "\<not> is_space (hd (extract_figure_caption fig)) \<and> \<not> is_space (last (extract_figure_caption fig))"
proof -
  obtain t where t: "extract_figure_caption fig = collapse_ws (strip t)"
    using caption_form by blast
  with assms have ne: "strip t \<noteq> []" by (auto simp: collapse_ws_Nil_iff)
  then have "\<not> is_space (hd (strip t))" "\<not> is_space (last (strip t))"
    by (rule strip_ends)+
  then show ?thesis using ne collapse_ws_hd[of "strip t"] collapse_ws_last[of "strip t"]
    by (simp add: t)
qed

text \<open>
  Claim C8, as amended. Caption extraction takes, in selector order, the first match of
  each caption selector and returns the whitespace-collapsed text of the first one whose
  trimmed text, measured before collapsing, is longer than 10 characters. If there is
  none it returns the collapsed text of the next sibling element when that sibling's
  trimmed text is longer than 20 characters, and the empty string otherwise. Collapsing
  keeps every character that is not whitespace; in a returned caption every whitespace
  character is a single space, no two stand side by side, and none stands at either end.
\<close>

theorem extract_figure_caption_rule:
  "extract_figure_caption fig =
     (case List.find (\<lambda>text. length text > 10) (caption_texts fig caption_selectors) of
        Some text \<Rightarrow> collapse_ws text
      | None \<Rightarrow>
          (case find_next_sibling fig of
             None \<Rightarrow> []
           | Some sib \<Rightarrow>
               if length (strip (get_text sib)) > 20 then collapse_ws (strip (get_text sib))
               else [])) \<and>
   filter (\<lambda>c. \<not> is_space c) (collapse_ws s) = filter (\<lambda>c. \<not> is_space c) s \<and>
   successively (\<lambda>a b. \<not> (is_space a \<and> is_space b)) (extract_figure_caption fig) \<and>
   (\<forall>c\<in>set (extract_figure_caption fig). is_space c \<longrightarrow> c = CHR '' '') \<and>
   (extract_figure_caption fig \<noteq> [] \<longrightarrow>
      \<not> is_space (hd (extract_figure_caption fig)) \<and> \<not> is_space (last (extract_figure_caption fig)))"
proof -
  obtain t where t: "extract_figure_caption fig = collapse_ws (strip t)"
    using caption_form by blast
  have A: "successively (\<lambda>a b. \<not> (is_space a \<and> is_space b)) (extract_figure_caption fig)"
    unfolding t by (rule collapse_ws_single)
  have B: "\<forall>c\<in>set (extract_figure_caption fig). is_space c \<longrightarrow> c = CHR '' ''"
    unfolding t using collapse_ws_space by blast
  have C: "extract_figure_caption fig \<noteq> [] \<longrightarrow>
      \<not> is_space (hd (extract_figure_caption fig)) \<and> \<not> is_space (last (extract_figure_caption fig))"
    using caption_ends by blast
  show ?thesis
    by (intro conjI) (fact extract_figure_caption_find collapse_ws_keeps A B C)+
qed

theorem extract_figure_caption_rule_witness:
  "extract_figure_caption panel_figure = ''Panel A shows focal necrosis.'' \<and>
   \<not> is_space (hd (extract_figure_caption panel_figure)) \<and>
   \<not> is_space (last (extract_figure_caption panel_figure))"
proof -
  have f: "List.find (\<lambda>text. length text > 10) (caption_texts panel_figure caption_selectors)
             = Some ''Panel A shows   focal  necrosis.''"
    by code_simp
  have c: "collapse_ws ''Panel A shows   focal  necrosis.'' = ''Panel A shows focal necrosis.''"
    by code_simp
  note r = extract_figure_caption_rule[of panel_figure "[]"]
  have e: "extract_figure_caption panel_figure = ''Panel A shows focal necrosis.''"
    by (simp only: r[THEN conjunct1] f c option.case)
  have ne: "extract_figure_caption panel_figure \<noteq> []"
    by (simp only: e) simp
  note ends = r[THEN conjunct2, THEN conjunct2, THEN conjunct2, THEN conjunct2, rule_format, OF ne]
  show ?thesis
    by (intro conjI) (fact e, rule ends[THEN conjunct1], rule ends[THEN conjunct2])
qed

text \<open>
  The claim as stated gates the selector pass on the length of the collapsed text. The code
  measures the trimmed text before collapsing: a caption of eleven characters whose
  collapsed form has three is returned.
\<close>

theorem caption_gate_counterexample:
  "extract_figure_caption spaced_figure = ''a b'' \<and>
   \<not> 10 < length (extract_figure_caption spaced_figure) \<and>
   find_next_sibling spaced_figure = None \<and>
   spec_first_caption spaced_figure caption_selectors = None"
proof -
  have a: "extract_figure_caption spaced_figure = ''a b''" by code_simp
  have b: "find_next_sibling spaced_figure = None" by code_simp
  have c: "spec_first_caption spaced_figure caption_selectors = None" by code_simp
  show ?thesis using a b c by simp
qed

section \<open>The image URL resolver: properties\<close>

lemma find_append_case:
  "List.find P (xs @ ys) = (case List.find P xs of Some x \<Rightarrow> Some x | None \<Rightarrow> List.find P ys)"
  by (induction xs) auto

lemma classify_usable: "classify u \<noteq> Unusable \<longleftrightarrow> is_cdn_url u \<or> is_ncbi_image_url u"
  by (simp add: classify_def)

lemma scan_img_tags_find:
  "scan_img_tags imgs = List.find (\<lambda>u. classify u \<noteq> Unusable) (List.map_filter candidate_url imgs)"
proof (induction imgs)
  case Nil
  show ?case by simp
next
  case (Cons img imgs)
  show ?case
  proof (cases "candidate_url img")
    case None
    then have "scan_img_tags (img # imgs) = scan_img_tags imgs"
      by (auto simp: candidate_url_def split: option.splits if_splits)
    then show ?thesis using None Cons by simp
  next
    case (Some u)
    then obtain src where s: "get_attr (tag_node img) ''src'' = Some src" "src \<noteq> []" "u = normalize_url src"
      by (auto simp: candidate_url_def split: option.splits if_splits)
    then have "scan_img_tags (img # imgs) =
        (if classify u \<noteq> Unusable then Some u else scan_img_tags imgs)"
      by (simp add: classify_usable Let_def)
    then show ?thesis using Some Cons by simp
  qed
qed

lemma scan_selectors_find:
  "scan_selectors soup sels = List.find (\<lambda>u. classify u \<noteq> Unusable) (scan_candidates soup sels)"
proof (induction sels)
  case Nil
  show ?case by (simp add: scan_candidates_def)
next
  case (Cons sel sels)
  have "scan_candidates soup (sel # sels) =
      List.map_filter candidate_url (soup_select sel soup) @ scan_candidates soup sels"
    by (simp add: scan_candidates_def)
  then show ?case using Cons
    by (simp add: find_append_case scan_img_tags_find split: option.splits)
qed

lemma scrape_eq:
  "scrape_cdn_url_from_figure_page w pmcid fig_id =
     (case w (figure_page_url pmcid fig_id) of
        Inl e \<Rightarrow> []
      | Inr (Response status_code content) \<Rightarrow>
          if status_code \<noteq> 200 then []
          else (case List.find (\<lambda>u. classify u \<noteq> Unusable) (scan_candidates content cdn_selectors) of
                  Some url \<Rightarrow> url
                | None \<Rightarrow> []),
      [figure_page_url pmcid fig_id])"
  by (simp only: scrape_cdn_url_from_figure_page_def Let_def scan_selectors_find)

lemma found_usable:
  "(case List.find (\<lambda>u. classify u \<noteq> Unusable) us of Some url \<Rightarrow> url | None \<Rightarrow> []) = r
     \<Longrightarrow> r = [] \<or> classify r \<noteq> Unusable"
  by (cases "List.find (\<lambda>u. classify u \<noteq> Unusable) us") (auto simp: find_Some_iff)

lemma scrape_usable:
  "fst (scrape_cdn_url_from_figure_page w pmcid fig_id) = [] \<or>
   classify (fst (scrape_cdn_url_from_figure_page w pmcid fig_id)) \<noteq> Unusable"
proof (cases "w (figure_page_url pmcid fig_id)")
  case (Inl e)
  then show ?thesis by (simp add: scrape_eq)
next
  case (Inr resp)
  obtain st content where r: "resp = Response st content" by (cases resp)
  show ?thesis
  proof (cases "st = 200")
    case False
    then show ?thesis using Inr r by (simp add: scrape_eq)
  next
    case True
    then have "fst (scrape_cdn_url_from_figure_page w pmcid fig_id) =
       (case List.find (\<lambda>u. classify u \<noteq> Unusable) (scan_candidates content cdn_selectors) of
          Some url \<Rightarrow> url | None \<Rightarrow> [])"
      using Inr r by (simp add: scrape_eq)
    then show ?thesis using found_usable by metis
  qed
qed

text \<open>
  Claim C2, as amended. The secondary fetch fails to the empty string on an exception and
  on any status but 200. Otherwise the scan returns the first candidate, in selector order
  and then document order, whose normalized URL is a direct asset or a generic repository
  image: a generic repository image is returned at once, the scan does not go on to look
  for a direct asset. The empty string is returned when no candidate is of either kind.
\<close>

theorem scrape_first_acceptable:
  "scrape_cdn_url_from_figure_page w pmcid fig_id =
     (case w (figure_page_url pmcid fig_id) of
        Inl e \<Rightarrow> []
      | Inr (Response status_code content) \<Rightarrow>
          if status_code \<noteq> 200 then []
          else (case List.find (\<lambda>u. classify u \<noteq> Unusable) (scan_candidates content cdn_selectors) of
                  Some url \<Rightarrow> url
                | None \<Rightarrow> []),
      [figure_page_url pmcid fig_id]) \<and>
   (fst (scrape_cdn_url_from_figure_page w pmcid fig_id) = [] \<or>
    classify (fst (scrape_cdn_url_from_figure_page w pmcid fig_id)) \<noteq> Unusable)"
  by (intro conjI) (fact scrape_eq scrape_usable)+

theorem scrape_first_acceptable_witness:
  "scrape_cdn_url_from_figure_page
      (world_page ''https://www.ncbi.nlm.nih.gov/pmc/articles/PMC1/figure/F1/'' 200 priority_page)
      ''PMC1'' ''F1''
     = (''https://cdn.ncbi.nlm.nih.gov/pmc/blobs/abc/fig1.jpg'',
        [''https://www.ncbi.nlm.nih.gov/pmc/articles/PMC1/figure/F1/''])"
proof -
  have p: "figure_page_url ''PMC1'' ''F1'' = ''https://www.ncbi.nlm.nih.gov/pmc/articles/PMC1/figure/F1/''"
    by (simp add: figure_page_url_def)
  have w: "world_page ''https://www.ncbi.nlm.nih.gov/pmc/articles/PMC1/figure/F1/'' 200 priority_page
             ''https://www.ncbi.nlm.nih.gov/pmc/articles/PMC1/figure/F1/'' = Inr (Response 200 priority_page)"
    by (simp only: world_page_def refl if_True)
  have f: "List.find (\<lambda>u. classify u \<noteq> Unusable) (scan_candidates priority_page cdn_selectors)
             = Some ''https://cdn.ncbi.nlm.nih.gov/pmc/blobs/abc/fig1.jpg''"
    by code_simp
  note t = scrape_first_acceptable[of
      "world_page ''https://www.ncbi.nlm.nih.gov/pmc/articles/PMC1/figure/F1/'' 200 priority_page"
      "''PMC1''" "''F1''", THEN conjunct1]
  show ?thesis
    by (simp only: t p w f sum.case response.case option.case refl if_False simp_thms)
qed

text \<open>
  The claim as stated lets the scan remember a lesser candidate and go on. On a page whose
  third selector finds a generic repository image and whose eighth finds a direct asset,
  the code returns the generic image.
\<close>

theorem scan_lesser_counterexample:
  "fst (scrape_cdn_url_from_figure_page
      (world_page ''https://www.ncbi.nlm.nih.gov/pmc/articles/PMC1/figure/F1/'' 200 lesser_first_page)
      ''PMC1'' ''F1'')
     = ''https://www.ncbi.nlm.nih.gov/corehtml/pmc/fig1.png'' \<and>
   classify ''https://www.ncbi.nlm.nih.gov/corehtml/pmc/fig1.png'' = GenericRepositoryImage \<and>
   spec_scan_result lesser_first_page cdn_selectors
     = ''https://www.ncbi.nlm.nih.gov/pmc/blobs/abc/fig1.jpg'' \<and>
   classify ''https://www.ncbi.nlm.nih.gov/pmc/blobs/abc/fig1.jpg'' = DirectAsset"
proof -
  have a: "fst (scrape_cdn_url_from_figure_page
      (world_page ''https://www.ncbi.nlm.nih.gov/pmc/articles/PMC1/figure/F1/'' 200 lesser_first_page)
      ''PMC1'' ''F1'')
     = ''https://www.ncbi.nlm.nih.gov/corehtml/pmc/fig1.png''" by code_simp
  have b: "classify ''https://www.ncbi.nlm.nih.gov/corehtml/pmc/fig1.png'' = GenericRepositoryImage"
    by code_simp
  have c: "spec_scan_result lesser_first_page cdn_selectors
     = ''https://www.ncbi.nlm.nih.gov/pmc/blobs/abc/fig1.jpg''" by code_simp
  have d: "classify ''https://www.ncbi.nlm.nih.gov/pmc/blobs/abc/fig1.jpg'' = DirectAsset"
    by code_simp
  show ?thesis by (intro conjI) (fact a b c d)+
qed

lemma inline_direct_no_fetch:
  "inline_image_url fig = Some url \<Longrightarrow> get_cdn_image_url w fig pmcid fig_id = (url, [])"
  by (simp add: get_cdn_image_url_def)

lemma inline_figure_none: "inline_image_url inline_figure = None"
  by code_simp

text \<open>
  Claim C1 fails on the code. The inline check of \<^verbatim>\<open>_get_cdn_image_url\<close> classifies
  the reference as written and normalizes it afterwards, while the scan of the secondary
  page normalizes first. The root-relative reference \<^verbatim>\<open>/pmc/blobs/abc/fig1.jpg\<close> is a
  direct asset once normalized, yet the inline check rejects it and the resolver requests
  the figure page, whatever the network answers.
\<close>

theorem inline_root_relative_fetches:
  "classify (normalize_url ''/pmc/blobs/abc/fig1.jpg'') = DirectAsset \<and>
   inline_image_url inline_figure = None \<and>
   get_cdn_image_url w inline_figure pmcid fig_id = scrape_cdn_url_from_figure_page w pmcid fig_id \<and>
   snd (get_cdn_image_url w inline_figure pmcid fig_id) = [figure_page_url pmcid fig_id] \<and>
   get_cdn_image_url world_404 inline_figure ''PMC1'' ''F1''
     = ([], [''https://www.ncbi.nlm.nih.gov/pmc/articles/PMC1/figure/F1/''])"
proof -
  have a: "classify (normalize_url ''/pmc/blobs/abc/fig1.jpg'') = DirectAsset" by code_simp
  have c: "get_cdn_image_url w inline_figure pmcid fig_id = scrape_cdn_url_from_figure_page w pmcid fig_id"
    by (simp add: get_cdn_image_url_def inline_figure_none)
  have d: "snd (get_cdn_image_url w inline_figure pmcid fig_id) = [figure_page_url pmcid fig_id]"
    unfolding c by (simp add: scrape_cdn_url_from_figure_page_def Let_def)
  have e: "get_cdn_image_url world_404 inline_figure ''PMC1'' ''F1''
     = ([], [''https://www.ncbi.nlm.nih.gov/pmc/articles/PMC1/figure/F1/''])" by code_simp
  show ?thesis by (intro conjI) (fact a inline_figure_none c d e)+
qed

section \<open>The drop rule\<close>

lemma extract_figure_info_eq:
  "extract_figure_info w fig pmcid n =
     (if extract_figure_caption fig \<noteq> [] \<or> resolved_url w fig pmcid n \<noteq> [] then
        Some \<lparr>figure_id = assigned_id fig n,
              label = extract_figure_label fig n,
              caption = extract_figure_caption fig,
              image_url = (if resolved_url w fig pmcid n \<noteq> [] then resolved_url w fig pmcid n
                           else figure_page_url pmcid (assigned_id fig n)),
              figure_url = (if resolved_url w fig pmcid n \<noteq> [] then resolved_url w fig pmcid n
                            else figure_page_url pmcid (assigned_id fig n))\<rparr>
      else None,
      snd (get_cdn_image_url w fig pmcid (assigned_id fig n)))"
proof -
  obtain u reqs where g: "get_cdn_image_url w fig pmcid (assigned_id fig n) = (u, reqs)"
    by (cases "get_cdn_image_url w fig pmcid (assigned_id fig n)") blast
  then have g': "get_cdn_image_url w fig pmcid
      (py_or_str (get_attr (tag_node fig) ''id'') (''figure_'' @ str_nat n)) = (u, reqs)"
    by (simp only: assigned_id_def)
  have r: "resolved_url w fig pmcid n = u"
    by (simp only: resolved_url_def g fst_conv)
  show ?thesis
    unfolding extract_figure_info_def Let_def g' r
    by (simp only: g assigned_id_def[symmetric] split_conv snd_conv)
qed

lemma figure_page_url_ne: "figure_page_url pmcid fig_id \<noteq> []"
  by (simp add: figure_page_url_def)





text \<open>
  Claim C5, as amended. A figure element yields no record exactly when its caption and
  the resolver's result are both empty; the generic figure-page URL stands in for the
  image only in a record kept for its caption.
\<close>

theorem record_dropped_iff:
  "(fst (extract_figure_info w fig pmcid n) = None \<longleftrightarrow>
      extract_figure_caption fig = [] \<and> resolved_url w fig pmcid n = []) \<and>
   (extract_figure_caption fig \<noteq> [] \<and> resolved_url w fig pmcid n = [] \<longrightarrow>
      (\<exists>r. fst (extract_figure_info w fig pmcid n) = Some r \<and>
           image_url r = figure_page_url pmcid (assigned_id fig n)))"
  unfolding extract_figure_info_eq fst_conv by auto

theorem record_dropped_iff_witness:
  "extract_figure_caption panel_figure \<noteq> [] \<and> resolved_url world_404 panel_figure ''PMC1'' 1 = [] \<and>
   (\<exists>r. fst (extract_figure_info world_404 panel_figure ''PMC1'' 1) = Some r \<and>
        image_url r = figure_page_url ''PMC1'' (assigned_id panel_figure 1)) \<and>
   figure_page_url ''PMC1'' (assigned_id panel_figure 1)
     = ''https://www.ncbi.nlm.nih.gov/pmc/articles/PMC1/figure/figure_1/''"
proof -
  have a: "extract_figure_caption panel_figure \<noteq> []" by code_simp
  have c: "resolved_url world_404 panel_figure ''PMC1'' 1 = []" by code_simp
  have d: "figure_page_url ''PMC1'' (assigned_id panel_figure 1)
            = ''https://www.ncbi.nlm.nih.gov/pmc/articles/PMC1/figure/figure_1/''" by code_simp
  note q = record_dropped_iff[of world_404 panel_figure "''PMC1''" 1, THEN conjunct2, rule_format]
  have e: "\<exists>r. fst (extract_figure_info world_404 panel_figure ''PMC1'' 1) = Some r \<and>
        image_url r = figure_page_url ''PMC1'' (assigned_id panel_figure 1)"
    by (rule q) (rule conjI, rule a, rule c)
  show ?thesis
    by (intro conjI) (fact a c e d)+
qed

text \<open>
  The claim as stated keeps the record of a figure with an empty caption whose resolution
  falls through to the generic figure page. The code drops it.
\<close>

theorem record_dropped_counterexample:
  "extract_figure_caption bare_figure = [] \<and>
   get_cdn_image_url world_404 bare_figure ''PMC1'' ''figure_1''
     = ([], [''https://www.ncbi.nlm.nih.gov/pmc/articles/PMC1/figure/figure_1/'']) \<and>
   extract_figure_info world_404 bare_figure ''PMC1'' 1
     = (None, [''https://www.ncbi.nlm.nih.gov/pmc/articles/PMC1/figure/figure_1/''])"
proof -
  have a: "extract_figure_caption bare_figure = []" by code_simp
  have b: "get_cdn_image_url world_404 bare_figure ''PMC1'' ''figure_1''
     = ([], [''https://www.ncbi.nlm.nih.gov/pmc/articles/PMC1/figure/figure_1/''])" by code_simp
  have c: "extract_figure_info world_404 bare_figure ''PMC1'' 1
     = (None, [''https://www.ncbi.nlm.nih.gov/pmc/articles/PMC1/figure/figure_1/''])" by code_simp
  show ?thesis
    by (intro conjI) (fact a b c)+
qed

section \<open>The orchestrator: properties\<close>

lemma process_figures_eq:
  "process_figures ex pmcid i figs (data, log) =
     (data @ List.map_filter (\<lambda>(k, fig). kept (fst (ex fig pmcid k))) (List.enumerate i figs),
      log @ concat (map (\<lambda>(k, fig). snd (ex fig pmcid k)) (List.enumerate i figs)))"
proof (induction figs arbitrary: i data log)
  case Nil
  show ?case by simp
next
  case (Cons fig figs)
  obtain r reqs where e: "ex fig pmcid i = (r, reqs)" by (cases "ex fig pmcid i")
  show ?case
  proof (cases r)
    case (Inl exc)
    then show ?thesis using e Cons by (simp add: kept_def)
  next
    case (Inr info)
    then show ?thesis using e Cons by (cases info) (simp_all add: kept_def)
  qed
qed

lemma scrape_figures_with_eq:
  "fst (scrape_figures_with ex w pmcid0) =
     (case w (paper_url (normalize_pmcid pmcid0)) of
        Inl e \<Rightarrow> Inr []
      | Inr (Response status_code content) \<Rightarrow>
          if 400 \<le> status_code \<and> status_code < 600 then Inr []
          else Inr (List.map_filter (\<lambda>(k, fig). kept (fst (ex fig (normalize_pmcid pmcid0) k)))
                      (List.enumerate 1 (find_figure_elements content))))"
proof (cases "w (paper_url (normalize_pmcid pmcid0))")
  case (Inl e)
  then show ?thesis by (simp add: scrape_figures_with_def scrape_figures_try_def)
next
  case (Inr resp)
  obtain st content where r: "resp = Response st content" by (cases resp)
  show ?thesis
  proof (cases "400 \<le> st \<and> st < 600")
    case True
    then show ?thesis using Inr r
      by (simp add: scrape_figures_with_def scrape_figures_try_def raise_for_status_def)
  next
    case False
    then show ?thesis using Inr r
      by (auto simp: scrape_figures_with_def scrape_figures_try_def raise_for_status_def
            process_figures_eq Let_def)
  qed
qed




section \<open>Fallback composition\<close>

lemma in_map_filter: "r \<in> set (List.map_filter f xs) \<Longrightarrow> \<exists>x\<in>set xs. f x = Some r"
  by (induction xs) (auto split: option.splits)

lemma kept_own_extractor:
  "kept (fst (own_extractor w fig pmcid k)) = fst (extract_figure_info w fig pmcid k)"
proof -
  obtain info reqs where e: "extract_figure_info w fig pmcid k = (info, reqs)"
    by (cases "extract_figure_info w fig pmcid k")
  show ?thesis by (cases info) (simp_all add: own_extractor_def e kept_def)
qed

lemma scrape_figures_records:
  assumes "fst (scrape_figures w pmcid0) = Inr records" and "r \<in> set records"
  shows "\<exists>k fig. fst (extract_figure_info w fig (normalize_pmcid pmcid0) k) = Some r"
proof (cases "w (paper_url (normalize_pmcid pmcid0))")
  case (Inl e)
  then have "fst (scrape_figures w pmcid0) = Inr []"
    by (simp add: scrape_figures_def scrape_figures_with_eq)
  then show ?thesis using assms by simp
next
  case (Inr resp)
  obtain st content where resp: "resp = Response st content" by (cases resp)
  show ?thesis
  proof (cases "400 \<le> st \<and> st < 600")
    case True
    then have "fst (scrape_figures w pmcid0) = Inr []"
      using Inr resp by (simp add: scrape_figures_def scrape_figures_with_eq)
    then show ?thesis using assms by simp
  next
    case False
    then have "fst (scrape_figures w pmcid0) =
        Inr (List.map_filter (\<lambda>(k, fig). fst (extract_figure_info w fig (normalize_pmcid pmcid0) k))
               (List.enumerate 1 (find_figure_elements content)))"
      using Inr resp by (auto simp: scrape_figures_def scrape_figures_with_eq kept_own_extractor)
    then have "r \<in> set (List.map_filter (\<lambda>(k, fig). fst (extract_figure_info w fig (normalize_pmcid pmcid0) k))
               (List.enumerate 1 (find_figure_elements content)))"
      using assms by simp
    then obtain x where "(\<lambda>(k, fig). fst (extract_figure_info w fig (normalize_pmcid pmcid0) k)) x = Some r"
      using in_map_filter by force
    then show ?thesis by (cases x) auto
  qed
qed

lemma extract_urls:
  assumes "fst (extract_figure_info w fig pmcid n) = Some r"
  shows "image_url r = figure_url r"
    and "image_url r = (if resolved_url w fig pmcid n \<noteq> [] then resolved_url w fig pmcid n
                        else figure_page_url pmcid (assigned_id fig n))"
    and "image_url r \<noteq> []" and "figure_url r \<noteq> []"
  using assms unfolding extract_figure_info_eq fst_conv
  by (auto simp: figure_page_url_ne split: if_splits)

text \<open>
  Claim C6. In every record the image field and the figure-link field hold the same
  value: the URL the resolver returned when it is not empty, the generic figure-page URL
  otherwise. Both fields are therefore never empty, in a record made from one figure
  element as in every record \<^verbatim>\<open>scrape_figures\<close> returns.
\<close>

theorem record_urls_equal:
  "(\<forall>r. fst (extract_figure_info w fig pmcid n) = Some r \<longrightarrow>
      image_url r = figure_url r \<and>
      image_url r = (if resolved_url w fig pmcid n \<noteq> [] then resolved_url w fig pmcid n
                     else figure_page_url pmcid (assigned_id fig n)) \<and>
      image_url r \<noteq> [] \<and> figure_url r \<noteq> []) \<and>
   (\<forall>records. fst (scrape_figures w pmcid0) = Inr records \<longrightarrow>
      (\<forall>r\<in>set records. image_url r = figure_url r \<and> image_url r \<noteq> [] \<and> figure_url r \<noteq> []))"
proof -
  have A: "\<forall>r. fst (extract_figure_info w fig pmcid n) = Some r \<longrightarrow>
      image_url r = figure_url r \<and>
      image_url r = (if resolved_url w fig pmcid n \<noteq> [] then resolved_url w fig pmcid n
                     else figure_page_url pmcid (assigned_id fig n)) \<and>
      image_url r \<noteq> [] \<and> figure_url r \<noteq> []"
    using extract_urls by blast
  have B: "\<forall>records. fst (scrape_figures w pmcid0) = Inr records \<longrightarrow>
      (\<forall>r\<in>set records. image_url r = figure_url r \<and> image_url r \<noteq> [] \<and> figure_url r \<noteq> [])"
  proof (intro allI impI ballI)
    fix records r
    assume "fst (scrape_figures w pmcid0) = Inr records" "r \<in> set records"
    then obtain k f where "fst (extract_figure_info w f (normalize_pmcid pmcid0) k) = Some r"
      using scrape_figures_records by blast
    then show "image_url r = figure_url r \<and> image_url r \<noteq> [] \<and> figure_url r \<noteq> []"
      using extract_urls(1,3,4) by blast
  qed
  show ?thesis by (intro conjI) (fact A B)+
qed

theorem record_urls_equal_witness:
  "fst (extract_figure_info world_404 panel_figure ''PMC1'' 1) = Some panel_record \<and>
   image_url panel_record = figure_url panel_record \<and>
   image_url panel_record \<noteq> [] \<and> figure_url panel_record \<noteq> []"
proof -
  have e: "fst (extract_figure_info world_404 panel_figure ''PMC1'' 1) = Some panel_record"
    by code_simp
  note t = record_urls_equal[of world_404 panel_figure "''PMC1''" 1 "''PMC1''",
      THEN conjunct1, rule_format, OF e]
  show ?thesis
    by (intro conjI) (fact e, rule t[THEN conjunct1], rule t[THEN conjunct2, THEN conjunct2, THEN conjunct1],
        rule t[THEN conjunct2, THEN conjunct2, THEN conjunct2])
qed

section \<open>Synthesized figure identifiers\<close>

lemma digit_char_inj: "d < 10 \<Longrightarrow> e < 10 \<Longrightarrow> digit_char d = digit_char e \<Longrightarrow> d = e"
proof -
  assume d: "d < 10" and e: "e < 10" and eq: "digit_char d = digit_char e"
  have dist: "distinct ''0123456789''" by simp
  have len: "length ''0123456789'' = 10" by simp
  show "d = e"
    using dist d e eq unfolding digit_char_def
    by (simp only: nth_eq_iff_index_eq len)
qed

lemma str_nat_ne: "str_nat n \<noteq> []"
  by (subst str_nat.simps) simp

lemma str_nat_inj: "str_nat n = str_nat m \<Longrightarrow> n = m"
proof (induction n arbitrary: m rule: str_nat.induct)
  case (1 n)
  show ?case
  proof (cases "n < 10")
    case True
    note n = True
    show ?thesis
    proof (cases "m < 10")
      case True
      have "[digit_char n] = [digit_char m]"
        using "1.prems" n True by (subst (asm) str_nat.simps, subst (asm) (2) str_nat.simps) simp
      then show ?thesis using digit_char_inj n True by simp
    next
      case False
      have "str_nat n = [digit_char n]" using n by (subst str_nat.simps) simp
      moreover have "str_nat m = str_nat (m div 10) @ [digit_char (m mod 10)]"
        using False by (subst str_nat.simps) simp
      ultimately have "str_nat (m div 10) = []" using "1.prems" by simp
      then show ?thesis using str_nat_ne by blast
    qed
  next
    case False
    note n = False
    have sn: "str_nat n = str_nat (n div 10) @ [digit_char (n mod 10)]"
      using n by (subst str_nat.simps) simp
    show ?thesis
    proof (cases "m < 10")
      case True
      have "str_nat m = [digit_char m]" using True by (subst str_nat.simps) simp
      then have "str_nat (n div 10) = []" using "1.prems" sn by simp
      then show ?thesis using str_nat_ne by blast
    next
      case False
      have sm: "str_nat m = str_nat (m div 10) @ [digit_char (m mod 10)]"
        using False by (subst str_nat.simps) simp
      from "1.prems" sn sm have a: "str_nat (n div 10) = str_nat (m div 10)"
        and b: "digit_char (n mod 10) = digit_char (m mod 10)" by simp_all
      have "n div 10 = m div 10" using "1.IH"[OF n a] .
      moreover have "n mod 10 = m mod 10" using digit_char_inj[OF _ _ b] by simp
      ultimately show ?thesis by (metis div_mult_mod_eq)
    qed
  qed
qed

lemma map_filter_enumerate_ids:
  assumes "\<And>k fig r. fig \<in> set figs \<Longrightarrow> f (k, fig) = Some r \<Longrightarrow> h r = g k"
  shows "\<exists>ks. sorted_wrt (<) ks \<and> set ks \<subseteq> {i..<i + length figs} \<and>
              map h (List.map_filter f (List.enumerate i figs)) = map g ks"
  using assms
proof (induction figs arbitrary: i)
  case Nil
  have "sorted_wrt (<) ([]::nat list) \<and> set ([]::nat list) \<subseteq> {i..<i + length ([]::'a list)} \<and>
        map h (List.map_filter f (List.enumerate i [])) = map g []" by simp
  then show ?case by blast
next
  case (Cons fig figs)
  have "\<exists>ks. sorted_wrt (<) ks \<and> set ks \<subseteq> {Suc i..<Suc i + length figs} \<and>
              map h (List.map_filter f (List.enumerate (Suc i) figs)) = map g ks"
    using Cons.prems by (intro Cons.IH) auto
  then obtain ks where ks: "sorted_wrt (<) ks" "set ks \<subseteq> {Suc i..<Suc i + length figs}"
      "map h (List.map_filter f (List.enumerate (Suc i) figs)) = map g ks" by blast
  show ?case
  proof (cases "f (i, fig)")
    case None
    have "sorted_wrt (<) ks \<and> set ks \<subseteq> {i..<i + length (fig # figs)} \<and>
          map h (List.map_filter f (List.enumerate i (fig # figs))) = map g ks"
      using ks None by auto
    then show ?thesis by blast
  next
    case (Some r)
    then have "h r = g i" using Cons.prems[of fig i r] by simp
    then have "sorted_wrt (<) (i # ks) \<and> set (i # ks) \<subseteq> {i..<i + length (fig # figs)} \<and>
          map h (List.map_filter f (List.enumerate i (fig # figs))) = map g (i # ks)"
      using ks Some by auto
    then show ?thesis by blast
  qed
qed

lemma synthesized_inj: "''figure_'' @ str_nat k = ''figure_'' @ str_nat j \<Longrightarrow> k = j"
  using str_nat_inj by simp

lemma distinct_synthesized:
  assumes "sorted_wrt (<) (ks::nat list)"
  shows "distinct (map (\<lambda>k. ''figure_'' @ str_nat k) ks)"
proof -
  have "distinct ks" using assms strict_sorted_iff by blast
  moreover have "inj_on (\<lambda>k. ''figure_'' @ str_nat k) (set ks)"
    by (rule inj_onI) (rule synthesized_inj)
  ultimately show ?thesis by (simp add: distinct_map)
qed

lemma scrape_figures_failed:
  assumes "w (paper_url (normalize_pmcid pmcid0)) = Inr (Response status_code content)"
    and "400 \<le> status_code \<and> status_code < 600"
  shows "fst (scrape_figures w pmcid0) = Inr []"
  using assms by (simp add: scrape_figures_def scrape_figures_with_eq)

lemma scrape_figures_fetched:
  assumes "w (paper_url (normalize_pmcid pmcid0)) = Inr (Response status_code content)"
    and "\<not> (400 \<le> status_code \<and> status_code < 600)"
  shows "fst (scrape_figures w pmcid0) =
     Inr (List.map_filter (\<lambda>(k, fig). fst (extract_figure_info w fig (normalize_pmcid pmcid0) k))
            (List.enumerate 1 (find_figure_elements content)))"
proof -
  have "fst (scrape_figures_with (own_extractor w) w pmcid0) =
      Inr (List.map_filter (\<lambda>(k, fig). kept (fst (own_extractor w fig (normalize_pmcid pmcid0) k)))
             (List.enumerate 1 (find_figure_elements content)))"
    unfolding scrape_figures_with_eq assms(1) using assms(2) by auto
  then show ?thesis
    unfolding scrape_figures_def kept_own_extractor .
qed

lemma no_id_assigned:
  "get_attr (tag_node fig) ''id'' = None \<or> get_attr (tag_node fig) ''id'' = Some []
     \<Longrightarrow> assigned_id fig k = ''figure_'' @ str_nat k"
  by (auto simp: assigned_id_def)

lemma extract_figure_id:
  "fst (extract_figure_info w fig pmcid k) = Some r \<Longrightarrow> figure_id r = assigned_id fig k"
  unfolding extract_figure_info_eq fst_conv by (auto split: if_splits)

lemma emitted_ids_synthesized:
  assumes page: "w (paper_url (normalize_pmcid pmcid0)) = Inr (Response status_code content)"
    and no_id: "\<And>fig k. fig \<in> set (find_figure_elements content)
                  \<Longrightarrow> assigned_id fig k = ''figure_'' @ str_nat k"
  shows "\<exists>ks. sorted_wrt (<) ks \<and> set ks \<subseteq> {1..<1 + length (find_figure_elements content)} \<and>
          emitted_ids w pmcid0 = map (\<lambda>k. ''figure_'' @ str_nat k) ks"
proof (cases "400 \<le> status_code \<and> status_code < 600")
  case True
  have "fst (scrape_figures w pmcid0) = Inr []"
    using page True by (rule scrape_figures_failed)
  then have "emitted_ids w pmcid0 = []" by (simp add: emitted_ids_def)
  then have "sorted_wrt (<) ([]::nat list) \<and>
        set ([]::nat list) \<subseteq> {1..<1 + length (find_figure_elements content)} \<and>
        emitted_ids w pmcid0 = map (\<lambda>k. ''figure_'' @ str_nat k) []" by simp
  then show ?thesis by (rule exI)
next
  case False
  define F where "F = (\<lambda>(k, fig). fst (extract_figure_info w fig (normalize_pmcid pmcid0) k))"
  have "fst (scrape_figures w pmcid0) =
      Inr (List.map_filter F (List.enumerate 1 (find_figure_elements content)))"
    unfolding F_def using page False by (rule scrape_figures_fetched)
  then have e: "emitted_ids w pmcid0 =
      map figure_id (List.map_filter F (List.enumerate 1 (find_figure_elements content)))"
    by (simp add: emitted_ids_def)
  have ids: "figure_id r = ''figure_'' @ str_nat k"
    if "fig \<in> set (find_figure_elements content)" "F (k, fig) = Some r" for k fig r
  proof -
    have "fst (extract_figure_info w fig (normalize_pmcid pmcid0) k) = Some r"
      using that(2) by (simp add: F_def)
    then have "figure_id r = assigned_id fig k" by (rule extract_figure_id)
    then show ?thesis using no_id[OF that(1)] by simp
  qed
  show ?thesis unfolding e using ids by (rule map_filter_enumerate_ids)
qed

text \<open>
  Claim C10. When the article page is fetched and no located figure element has an
  \<^verbatim>\<open>id\<close> attribute (or only an empty one), the identifiers of the returned records are
  pairwise distinct: they are \<^verbatim>\<open>figure_<k>\<close> for strictly increasing positions \<open>k\<close>,
  counted from 1 in locator order. The identifier given to the element at position \<open>k\<close>
  is \<^verbatim>\<open>figure_<k>\<close> whatever the element holds and whatever the network answers, so
  the assignment depends on the order of first acceptance only.
\<close>

theorem synthesized_ids_distinct:
  assumes page: "w (paper_url (normalize_pmcid pmcid0)) = Inr (Response status_code content)"
    and no_id: "\<forall>fig\<in>set (find_figure_elements content).
                  get_attr (tag_node fig) ''id'' = None \<or> get_attr (tag_node fig) ''id'' = Some []"
  shows "distinct (emitted_ids w pmcid0) \<and>
    (\<exists>ks. sorted_wrt (<) ks \<and> set ks \<subseteq> {1..length (find_figure_elements content)} \<and>
          emitted_ids w pmcid0 = map (\<lambda>k. ''figure_'' @ str_nat k) ks) \<and>
    (\<forall>i<length (find_figure_elements content).
       assigned_id (find_figure_elements content ! i) (Suc i) = ''figure_'' @ str_nat (Suc i))"
proof -
  have no_id': "assigned_id fig k = ''figure_'' @ str_nat k"
    if "fig \<in> set (find_figure_elements content)" for fig k
  proof -
    have "get_attr (tag_node fig) ''id'' = None \<or> get_attr (tag_node fig) ''id'' = Some []"
      using no_id that by (rule bspec)
    then show ?thesis by (rule no_id_assigned)
  qed
  have "\<exists>ks. sorted_wrt (<) ks \<and> set ks \<subseteq> {1..<1 + length (find_figure_elements content)} \<and>
          emitted_ids w pmcid0 = map (\<lambda>k. ''figure_'' @ str_nat k) ks"
    using page no_id' by (rule emitted_ids_synthesized)
  then obtain ks where ks: "sorted_wrt (<) ks"
      "set ks \<subseteq> {1..<1 + length (find_figure_elements content)}"
      "emitted_ids w pmcid0 = map (\<lambda>k. ''figure_'' @ str_nat k) ks"
    by blast
  have r: "{1..<1 + length (find_figure_elements content)} = {1..length (find_figure_elements content)}"
    by auto
  have A: "distinct (emitted_ids w pmcid0)"
    unfolding ks(3) using ks(1) by (rule distinct_synthesized)
  have "sorted_wrt (<) ks \<and> set ks \<subseteq> {1..length (find_figure_elements content)} \<and>
          emitted_ids w pmcid0 = map (\<lambda>k. ''figure_'' @ str_nat k) ks"
    using ks unfolding r by (intro conjI)
  then have B: "\<exists>ks. sorted_wrt (<) ks \<and> set ks \<subseteq> {1..length (find_figure_elements content)} \<and>
          emitted_ids w pmcid0 = map (\<lambda>k. ''figure_'' @ str_nat k) ks"
    by (rule exI)
  have C: "\<forall>i<length (find_figure_elements content).
       assigned_id (find_figure_elements content ! i) (Suc i) = ''figure_'' @ str_nat (Suc i)"
  proof (intro allI impI)
    fix i assume "i < length (find_figure_elements content)"
    then have "find_figure_elements content ! i \<in> set (find_figure_elements content)" by (rule nth_mem)
    then show "assigned_id (find_figure_elements content ! i) (Suc i) = ''figure_'' @ str_nat (Suc i)"
      by (rule no_id')
  qed
  show ?thesis by (intro conjI) (fact A B C)+
qed

theorem synthesized_ids_distinct_witness:
  "distinct (emitted_ids three_figures_world ''PMC1'') \<and>
   emitted_ids three_figures_world ''PMC1'' = [''figure_1'', ''figure_2'', ''figure_3'']"
proof -
  have page: "three_figures_world (paper_url (normalize_pmcid ''PMC1'')) = Inr (Response 200 three_figures_page)"
    by code_simp
  have no_id: "\<forall>fig\<in>set (find_figure_elements three_figures_page).
                  get_attr (tag_node fig) ''id'' = None \<or> get_attr (tag_node fig) ''id'' = Some []"
    by code_simp
  have v: "emitted_ids three_figures_world ''PMC1'' = [''figure_1'', ''figure_2'', ''figure_3'']"
    by code_simp
  note t = synthesized_ids_distinct[of three_figures_world "''PMC1''" 200 three_figures_page,
      OF page no_id, THEN conjunct1]
  show ?thesis by (intro conjI) (fact t v)+
qed

end
